theory Spec2Isabelle
  imports Complex_Main
begin

section \<open>JavaScript values\<close>

text \<open>
  The values the handlers of \<^verbatim>\<open>src/index.js\<close> receive: the parsed JSON body of the
  upstream response (\<^verbatim>\<open>response.data\<close>) and of a request (\<^verbatim>\<open>req.body\<close>), together
  with \<^verbatim>\<open>undefined\<close>, which reading a missing property yields. An object is the list
  of its own properties, each key once.
\<close>

datatype js =
    JUndefined
  | JNull
  | JBool bool
  | JNum rat
  | JStr string
  | JArr "js list"
  | JObj "(string \<times> js) list"

text \<open>What the \<^verbatim>\<open>try\<close> blocks of the handlers can catch.\<close>

datatype error =
    TypeError
  | AxiosError
  | ValidationError
  | ForeignKeyViolation
  | RecordNotFound

text \<open>
  Property access \<^verbatim>\<open>v.k\<close>. Reading a property of \<^verbatim>\<open>undefined\<close> or \<^verbatim>\<open>null\<close> throws a
  TypeError; an object yields the property or \<^verbatim>\<open>undefined\<close>; every other value yields
  \<^verbatim>\<open>undefined\<close> for the property names this program reads (none of them is defined
  on the prototype of a string, number, boolean or array).
\<close>

fun get_prop :: "js \<Rightarrow> string \<Rightarrow> error + js" where
  "get_prop JUndefined k = Inl TypeError"
| "get_prop JNull k = Inl TypeError"
| "get_prop (JObj kvs) k = Inr (case map_of kvs k of None \<Rightarrow> JUndefined | Some v \<Rightarrow> v)"
| "get_prop v k = Inr JUndefined"

text \<open>
  The values a \<^verbatim>\<open>for (let x of v)\<close> loop visits: the elements of an array, the
  characters of a string; anything else is not iterable and throws a TypeError.
\<close>

fun js_iterate :: "js \<Rightarrow> error + js list" where
  "js_iterate (JArr xs) = Inr xs"
| "js_iterate (JStr s) = Inr (map (\<lambda>c. JStr [c]) s)"
| "js_iterate v = Inl TypeError"

text \<open>Sequencing of steps that may throw: the first exception ends the sequence.\<close>

definition bind :: "error + 'a \<Rightarrow> ('a \<Rightarrow> error + 'b) \<Rightarrow> error + 'b" where
  "bind m f = (case m of Inl e \<Rightarrow> Inl e | Inr x \<Rightarrow> f x)"

section \<open>The environment\<close>

text \<open>
  What the program calls and does not define: the upstream server behind
  \<^verbatim>\<open>axios.get\<close> (an exception, or the body of the response), the built-ins
  \<^verbatim>\<open>new Date(v)\<close> (\<open>None\<close> is an invalid date, otherwise milliseconds since the epoch)
  and \<^verbatim>\<open>parseInt\<close> (\<open>None\<close> is NaN), and the operator objects the Prisma client accepts
  in place of a scalar: a filter object in a \<^verbatim>\<open>where\<close> clause and the atomic update
  operations in the \<^verbatim>\<open>data\<close> of an update (\<open>None\<close>: the client rejects the object).
  Every theorem below holds for every environment.
\<close>

record env =
  axios_get :: "string \<Rightarrow> error + js"
  new_Date :: "js \<Rightarrow> int option"
  parseInt :: "string \<Rightarrow> int option"
  StringFilter :: "(string \<times> js) list \<Rightarrow> (string \<Rightarrow> bool) option"
  StringFieldUpdate :: "(string \<times> js) list \<Rightarrow> (string \<Rightarrow> string) option"
  IntFieldUpdate :: "(string \<times> js) list \<Rightarrow> (int \<Rightarrow> int) option"
  FloatFieldUpdate :: "(string \<times> js) list \<Rightarrow> (rat \<Rightarrow> rat) option"

section \<open>The catalog store\<close>

text \<open>
  Modelled from the spec: the Prisma schema (\<^verbatim>\<open>schema.prisma\<close>) is not among the
  sources. Section 3 of the specification gives the two tables and their columns:
  Category (\<^verbatim>\<open>id\<close> integer primary key supplied by upstream, \<^verbatim>\<open>name\<close> string,
  \<^verbatim>\<open>user_id\<close> integer) and Product (\<^verbatim>\<open>id\<close> locally generated primary key, strings
  \<^verbatim>\<open>title slug lang status type preview\<close>, integers \<^verbatim>\<open>auth_id count stock\<close>,
  timestamps \<^verbatim>\<open>created_at updated_at\<close>, numeric \<^verbatim>\<open>price\<close>, and \<^verbatim>\<open>category_id\<close>, a
  foreign key to Category). Every column is required, and no column is filled in
  by the store except the product's \<^verbatim>\<open>id\<close>.
\<close>

record category_row =
  cat_id :: int
  name :: string
  user_id :: int

record product_row =
  prod_id :: int
  title :: string
  slug :: string
  lang :: string
  auth_id :: int
  status :: string
  type :: string
  count :: int
  created_at :: int
  updated_at :: int
  category_id :: int
  price :: rat
  preview :: string
  stock :: int

text \<open>
  The database: both tables in insertion order and the next value of the product
  table's autoincrement counter.
\<close>

record store =
  categories :: "category_row list"
  products :: "product_row list"
  next_id :: int

text \<open>
  The client's reading of a JavaScript value for a required column (the column
  types are those of section 3 of the specification). An integer column takes a
  number: the client drops its fraction, rounding toward zero (\<^verbatim>\<open>3.5\<close> is stored as
  \<^verbatim>\<open>3\<close>, \<^verbatim>\<open>-3.5\<close> as \<^verbatim>\<open>-3\<close>), and rejects an integer that does not fit 64 bits. A
  string column takes a string, a numeric column a number. \<^verbatim>\<open>undefined\<close>, \<^verbatim>\<open>null\<close>
  and every other value are rejected.
\<close>

definition trunc :: "rat \<Rightarrow> int" where
  "trunc q = (if 0 \<le> q then \<lfloor>q\<rfloor> else \<lceil>q\<rceil>)"

definition fits_int64 :: "int \<Rightarrow> bool" where
  "fits_int64 i = (- (2 ^ 63) \<le> i \<and> i < 2 ^ 63)"

fun as_Int :: "js \<Rightarrow> int option" where
  "as_Int (JNum q) = (if fits_int64 (trunc q) then Some (trunc q) else None)"
| "as_Int v = None"

fun as_String :: "js \<Rightarrow> string option" where
  "as_String (JStr s) = Some s"
| "as_String v = None"

fun as_Float :: "js \<Rightarrow> rat option" where
  "as_Float (JNum q) = Some q"
| "as_Float v = None"

definition has_category :: "store \<Rightarrow> int \<Rightarrow> bool" where
  "has_category s i = (i \<in> cat_id ` set (categories s))"

subsection \<open>\<^verbatim>\<open>prisma.category.upsert\<close>\<close>

text \<open>
  The call of lines 37-48: \<^verbatim>\<open>where: {id}\<close>, \<^verbatim>\<open>update: {name, user_id}\<close>,
  \<^verbatim>\<open>create: {id, name, user_id}\<close>, all three built from the same three values. The
  client checks the arguments first (the \<^verbatim>\<open>create\<close> part needs all three columns), then
  the row with that \<^verbatim>\<open>id\<close> is overwritten in place, or a new row is appended. The
  result is the stored row.
\<close>

definition category_upsert :: "store \<Rightarrow> js \<Rightarrow> js \<Rightarrow> js \<Rightarrow> error + (category_row \<times> store)" where
  "category_upsert s i n u =
     (case (as_Int i, as_String n, as_Int u) of
        (Some i', Some n', Some u') \<Rightarrow>
          (let row = \<lparr>cat_id = i', name = n', user_id = u'\<rparr> in
           if has_category s i'
           then Inr (row, s\<lparr>categories :=
                  map (\<lambda>r. if cat_id r = i' then r\<lparr>name := n', user_id := u'\<rparr> else r)
                    (categories s)\<rparr>)
           else Inr (row, s\<lparr>categories := categories s @ [row]\<rparr>))
      | _ \<Rightarrow> Inl ValidationError)"

subsection \<open>\<^verbatim>\<open>prisma.product.findFirst\<close>\<close>

text \<open>
  The \<^verbatim>\<open>title\<close> of a \<^verbatim>\<open>where\<close> clause: a string is compared for equality, an
  \<^verbatim>\<open>undefined\<close> value leaves the condition out, an object is a filter object, and
  any other value is rejected (the column is a required string). Two strings are
  equal when they are the same characters, as section 4.1 of the specification says;
  a database collation that ignores case is not part of the model.
\<close>

fun title_filter :: "env \<Rightarrow> js \<Rightarrow> (string \<Rightarrow> bool) option" where
  "title_filter E (JStr t) = Some (\<lambda>x. x = t)"
| "title_filter E JUndefined = Some (\<lambda>x. True)"
| "title_filter E (JObj kvs) = StringFilter E kvs"
| "title_filter E v = None"

definition product_findFirst :: "env \<Rightarrow> store \<Rightarrow> js \<Rightarrow> int \<Rightarrow> error + product_row option" where
  "product_findFirst E s t c =
     (case title_filter E t of
        None \<Rightarrow> Inl ValidationError
      | Some f \<Rightarrow> Inr (find (\<lambda>r. f (title r) \<and> category_id r = c) (products s)))"

subsection \<open>\<^verbatim>\<open>prisma.product.create\<close>\<close>

text \<open>
  The \<^verbatim>\<open>data\<close> object of a create: the values as the caller built them (the two
  dates are \<^verbatim>\<open>Date\<close> objects, \<open>None\<close> when invalid).
\<close>

record product_data =
  d_title :: js
  d_slug :: js
  d_lang :: js
  d_auth_id :: js
  d_status :: js
  d_type :: js
  d_count :: js
  d_created_at :: "int option"
  d_updated_at :: "int option"
  d_category_id :: js
  d_price :: js
  d_preview :: js
  d_stock :: js

text \<open>
  Modelled from the spec: the row a valid \<^verbatim>\<open>data\<close> object describes, given its
  \<^verbatim>\<open>id\<close>. The schema is not among the sources; by section 3 every column is
  required and has the type checked here.
\<close>

definition row_of_data :: "int \<Rightarrow> product_data \<Rightarrow> product_row option" where
  "row_of_data i d =
     (case (as_String (d_title d), as_String (d_slug d), as_String (d_lang d),
            as_Int (d_auth_id d), as_String (d_status d), as_String (d_type d),
            as_Int (d_count d), d_created_at d, d_updated_at d, as_Int (d_category_id d),
            as_Float (d_price d), as_String (d_preview d), as_Int (d_stock d)) of
        (Some t, Some sl, Some l, Some a, Some st, Some ty, Some c, Some ca, Some ua,
         Some ci, Some p, Some pv, Some sk) \<Rightarrow>
          Some \<lparr>prod_id = i, title = t, slug = sl, lang = l, auth_id = a, status = st,
                type = ty, count = c, created_at = ca, updated_at = ua, category_id = ci,
                price = p, preview = pv, stock = sk\<rparr>
      | _ \<Rightarrow> None)"

text \<open>
  The client rejects invalid data; the database rejects a \<^verbatim>\<open>category_id\<close> without
  a Category row (the foreign key of section 3 of the specification); otherwise the
  row is appended under the next \<^verbatim>\<open>id\<close>.
\<close>

definition product_create :: "store \<Rightarrow> product_data \<Rightarrow> error + (product_row \<times> store)" where
  "product_create s d =
     (case row_of_data (next_id s) d of
        None \<Rightarrow> Inl ValidationError
      | Some row \<Rightarrow>
          if has_category s (category_id row)
          then Inr (row, s\<lparr>products := products s @ [row], next_id := next_id s + 1\<rparr>)
          else Inl ForeignKeyViolation)"

section \<open>The identity resolver\<close>

text \<open>
  \<^verbatim>\<open>productExists(title, categoryId)\<close>, lines 15-23: \<^verbatim>\<open>findFirst\<close> with both
  conditions, and the answer is whether a row came back. The title is whatever the
  caller read from the document; the category id is the \<^verbatim>\<open>id\<close> of a stored row.
\<close>

definition productExists :: "env \<Rightarrow> store \<Rightarrow> js \<Rightarrow> int \<Rightarrow> error + bool" where
  "productExists E s t categoryId =
     bind (product_findFirst E s t categoryId) (\<lambda>product. Inr (product \<noteq> None))"

section \<open>The ingestion pipeline\<close>

text \<open>
  The \<^verbatim>\<open>data\<close> object of lines 56-70, its properties evaluated in the order they are
  written: a missing \<^verbatim>\<open>price\<close>, \<^verbatim>\<open>preview\<close> or \<^verbatim>\<open>stock\<close> object makes the nested read
  throw before the client is called.
\<close>

definition product_data_of :: "env \<Rightarrow> category_row \<Rightarrow> js \<Rightarrow> error + product_data" where
  "product_data_of E categoryData product =
     bind (get_prop product ''title'') (\<lambda>v_title.
     bind (get_prop product ''slug'') (\<lambda>v_slug.
     bind (get_prop product ''lang'') (\<lambda>v_lang.
     bind (get_prop product ''auth_id'') (\<lambda>v_auth_id.
     bind (get_prop product ''status'') (\<lambda>v_status.
     bind (get_prop product ''type'') (\<lambda>v_type.
     bind (get_prop product ''count'') (\<lambda>v_count.
     bind (get_prop product ''created_at'') (\<lambda>v_created_at.
     bind (get_prop product ''updated_at'') (\<lambda>v_updated_at.
     bind (get_prop product ''price'') (\<lambda>o_price.
     bind (get_prop o_price ''price'') (\<lambda>v_price.
     bind (get_prop product ''preview'') (\<lambda>o_preview.
     bind (get_prop o_preview ''content'') (\<lambda>v_preview.
     bind (get_prop product ''stock'') (\<lambda>o_stock.
     bind (get_prop o_stock ''stock'') (\<lambda>v_stock.
       Inr \<lparr>d_title = v_title, d_slug = v_slug, d_lang = v_lang, d_auth_id = v_auth_id,
            d_status = v_status, d_type = v_type, d_count = v_count,
            d_created_at = new_Date E v_created_at,
            d_updated_at = new_Date E v_updated_at,
            d_category_id = JNum (of_int (cat_id categoryData)),
            d_price = v_price, d_preview = v_preview, d_stock = v_stock\<rparr>)))))))))))))))"

text \<open>
  The body of the inner loop, lines 51-72: the existence check, then the insert
  when the check says no. \<open>Inl\<close> is the exception thrown (the store is as it was);
  \<open>Inr\<close> is the store afterwards.
\<close>

definition product_step :: "env \<Rightarrow> store \<Rightarrow> category_row \<Rightarrow> js \<Rightarrow> error + store" where
  "product_step E s categoryData product =
     bind (get_prop product ''title'') (\<lambda>t.
     bind (productExists E s t (cat_id categoryData)) (\<lambda>exists.
       if \<not> exists
       then bind (product_data_of E categoryData product) (\<lambda>d.
            bind (product_create s d) (\<lambda>created. Inr (snd created)))
       else Inr s))"

text \<open>
  The inner loop, line 50. The result is the exception that ended the loop, if any,
  and the store at that moment: what was written before stays written.
\<close>

fun product_loop :: "env \<Rightarrow> store \<Rightarrow> category_row \<Rightarrow> js list \<Rightarrow> error option \<times> store" where
  "product_loop E s categoryData [] = (None, s)"
| "product_loop E s categoryData (product # rest) =
     (case product_step E s categoryData product of
        Inl e \<Rightarrow> (Some e, s)
      | Inr s' \<Rightarrow> product_loop E s' categoryData rest)"

text \<open>
  The upsert of lines 37-48 with its arguments read from the category block, and
  the products the inner loop of line 50 visits.
\<close>

definition upsert_category :: "store \<Rightarrow> js \<Rightarrow> error + (category_row \<times> store)" where
  "upsert_category s category =
     bind (get_prop category ''id'') (\<lambda>i.
     bind (get_prop category ''name'') (\<lambda>n.
     bind (get_prop category ''user_id'') (\<lambda>u.
       category_upsert s i n u)))"

definition products_of :: "js \<Rightarrow> error + js list" where
  "products_of category = bind (get_prop category ''products'') js_iterate"

text \<open>The body of the outer loop, lines 36-73: the upsert, then the inner loop.\<close>

definition category_step :: "env \<Rightarrow> store \<Rightarrow> js \<Rightarrow> error option \<times> store" where
  "category_step E s category =
     (case upsert_category s category of
        Inl e \<Rightarrow> (Some e, s)
      | Inr (categoryData, s1) \<Rightarrow>
          (case products_of category of
             Inl e \<Rightarrow> (Some e, s1)
           | Inr ps \<Rightarrow> product_loop E s1 categoryData ps))"

fun category_loop :: "env \<Rightarrow> store \<Rightarrow> js list \<Rightarrow> error option \<times> store" where
  "category_loop E s [] = (None, s)"
| "category_loop E s (category # rest) =
     (case category_step E s category of
        (Some e, s') \<Rightarrow> (Some e, s')
      | (None, s') \<Rightarrow> category_loop E s' rest)"

text \<open>What a handler sends: the status code and the body.\<close>

datatype body = Text string | Row product_row

record response =
  code :: nat
  payload :: body

definition fetch_ok :: response where
  "fetch_ok = \<lparr>code = 200, payload = Text ''Data berhasil diambil dan disimpan''\<rparr>"

definition fetch_failed :: response where
  "fetch_failed = \<lparr>code = 500, payload = Text ''Gagal mengambil dan menyimpan data''\<rparr>"

text \<open>
  The handler of \<^verbatim>\<open>GET /fetch-data/:id\<close>, lines 26-81: one \<^verbatim>\<open>try\<close> around the fetch
  and both loops, one \<^verbatim>\<open>catch\<close> for every exception.
\<close>

definition apiURL :: "string \<Rightarrow> string" where
  "apiURL rid = ''https://portal.panelo.co/paneloresto/api/productlist/'' @ rid"

text \<open>
  Lines 31-35: the fetch, \<^verbatim>\<open>response.data.products\<close>, and the category blocks the
  outer loop visits.
\<close>

definition fetch_categories :: "env \<Rightarrow> string \<Rightarrow> error + js list" where
  "fetch_categories E rid =
     bind (axios_get E (apiURL rid)) (\<lambda>data.
     bind (get_prop data ''products'') js_iterate)"

definition fetch_data :: "env \<Rightarrow> store \<Rightarrow> string \<Rightarrow> response \<times> store" where
  "fetch_data E s rid =
     (case fetch_categories E rid of
        Inl e \<Rightarrow> (fetch_failed, s)
      | Inr cs \<Rightarrow>
          (case category_loop E s cs of
             (None, s') \<Rightarrow> (fetch_ok, s')
           | (Some e, s') \<Rightarrow> (fetch_failed, s')))"

section \<open>The update endpoint\<close>

text \<open>
  A value in the \<^verbatim>\<open>data\<close> of \<^verbatim>\<open>prisma.product.update\<close>: \<^verbatim>\<open>undefined\<close> leaves the
  column as it is, a value of the column's type replaces it (a number for an integer
  column is read as in a create: fraction dropped, 64 bits), an object is an atomic
  update operation, and anything else is rejected.
\<close>

fun string_update :: "env \<Rightarrow> js \<Rightarrow> (string \<Rightarrow> string) option" where
  "string_update E JUndefined = Some (\<lambda>old. old)"
| "string_update E (JStr v) = Some (\<lambda>old. v)"
| "string_update E (JObj kvs) = StringFieldUpdate E kvs"
| "string_update E v = None"

fun int_update :: "env \<Rightarrow> js \<Rightarrow> (int \<Rightarrow> int) option" where
  "int_update E JUndefined = Some (\<lambda>old. old)"
| "int_update E (JNum q) = (if fits_int64 (trunc q) then Some (\<lambda>old. trunc q) else None)"
| "int_update E (JObj kvs) = IntFieldUpdate E kvs"
| "int_update E v = None"

fun float_update :: "env \<Rightarrow> js \<Rightarrow> (rat \<Rightarrow> rat) option" where
  "float_update E JUndefined = Some (\<lambda>old. old)"
| "float_update E (JNum q) = Some (\<lambda>old. q)"
| "float_update E (JObj kvs) = FloatFieldUpdate E kvs"
| "float_update E v = None"

text \<open>The \<^verbatim>\<open>data\<close> object of lines 190-202: eleven columns.\<close>

record update_data =
  u_title :: js
  u_slug :: js
  u_lang :: js
  u_auth_id :: js
  u_status :: js
  u_type :: js
  u_count :: js
  u_price :: js
  u_preview :: js
  u_stock :: js
  u_category_id :: js

definition row_update :: "env \<Rightarrow> update_data \<Rightarrow> (product_row \<Rightarrow> product_row) option" where
  "row_update E d =
     (case (string_update E (u_title d), string_update E (u_slug d),
            string_update E (u_lang d), int_update E (u_auth_id d),
            string_update E (u_status d), string_update E (u_type d),
            int_update E (u_count d), float_update E (u_price d),
            string_update E (u_preview d), int_update E (u_stock d),
            int_update E (u_category_id d)) of
        (Some f_title, Some f_slug, Some f_lang, Some f_auth_id, Some f_status, Some f_type,
         Some f_count, Some f_price, Some f_preview, Some f_stock, Some f_category_id) \<Rightarrow>
          Some (\<lambda>r. r\<lparr>title := f_title (title r), slug := f_slug (slug r),
                      lang := f_lang (lang r), auth_id := f_auth_id (auth_id r),
                      status := f_status (status r), type := f_type (type r),
                      count := f_count (count r), price := f_price (price r),
                      preview := f_preview (preview r), stock := f_stock (stock r),
                      category_id := f_category_id (category_id r)\<rparr>)
      | _ \<Rightarrow> None)"

text \<open>
  \<^verbatim>\<open>prisma.product.update({where: {id}, data})\<close>: the client checks the arguments
  (\<open>None\<close> is the NaN of a failed \<^verbatim>\<open>parseInt\<close>), the row must exist, and the new
  \<^verbatim>\<open>category_id\<close> must have its Category row. The result is the updated row. Only
  the columns of \<^verbatim>\<open>data\<close> are written: by section 3 of the specification
  \<^verbatim>\<open>updated_at\<close> is a timestamp taken from upstream, not one the store maintains.
\<close>

definition product_update ::
  "env \<Rightarrow> store \<Rightarrow> int option \<Rightarrow> update_data \<Rightarrow> error + (product_row \<times> store)" where
  "product_update E s productId d =
     (case (productId, row_update E d) of
        (Some i, Some f) \<Rightarrow>
          (case find (\<lambda>r. prod_id r = i) (products s) of
             None \<Rightarrow> Inl RecordNotFound
           | Some r \<Rightarrow>
               if has_category s (category_id (f r))
               then Inr (f r, s\<lparr>products :=
                      map (\<lambda>x. if prod_id x = i then f x else x) (products s)\<rparr>)
               else Inl ForeignKeyViolation)
      | _ \<Rightarrow> Inl ValidationError)"

text \<open>The destructuring of \<^verbatim>\<open>req.body\<close>, line 185.\<close>

definition update_data_of :: "js \<Rightarrow> error + update_data" where
  "update_data_of b =
     bind (get_prop b ''title'') (\<lambda>v_title.
     bind (get_prop b ''slug'') (\<lambda>v_slug.
     bind (get_prop b ''lang'') (\<lambda>v_lang.
     bind (get_prop b ''auth_id'') (\<lambda>v_auth_id.
     bind (get_prop b ''status'') (\<lambda>v_status.
     bind (get_prop b ''type'') (\<lambda>v_type.
     bind (get_prop b ''count'') (\<lambda>v_count.
     bind (get_prop b ''price'') (\<lambda>v_price.
     bind (get_prop b ''preview'') (\<lambda>v_preview.
     bind (get_prop b ''stock'') (\<lambda>v_stock.
     bind (get_prop b ''category_id'') (\<lambda>v_category_id.
       Inr \<lparr>u_title = v_title, u_slug = v_slug, u_lang = v_lang, u_auth_id = v_auth_id,
            u_status = v_status, u_type = v_type, u_count = v_count, u_price = v_price,
            u_preview = v_preview, u_stock = v_stock,
            u_category_id = v_category_id\<rparr>)))))))))))"

definition update_failed :: response where
  "update_failed = \<lparr>code = 500, payload = Text ''Gagal memperbarui produk''\<rparr>"

text \<open>
  The handler of \<^verbatim>\<open>PUT /products/:id\<close>, lines 183-210. The destructuring stands
  before the \<^verbatim>\<open>try\<close>: its exception leaves the handler (\<open>Inl\<close>) and nothing is sent.
\<close>

definition put_product :: "env \<Rightarrow> store \<Rightarrow> string \<Rightarrow> js \<Rightarrow> (error + response) \<times> store" where
  "put_product E s rid b =
     (let productId = parseInt E rid in
      case update_data_of b of
        Inl e \<Rightarrow> (Inl e, s)
      | Inr d \<Rightarrow>
          (case product_update E s productId d of
             Inr (updatedProduct, s') \<Rightarrow> (Inr \<lparr>code = 200, payload = Row updatedProduct\<rparr>, s')
           | Inl e \<Rightarrow> (Inr update_failed, s)))"

section \<open>Example documents\<close>

text \<open>
  The product and the category block of the end-to-end scenario of the
  specification (section 8), and variations of them.
\<close>

definition red_shirt :: js where
  "red_shirt = JObj
     [(''title'', JStr ''Red Shirt''), (''slug'', JStr ''red-shirt''), (''lang'', JStr ''en''),
      (''auth_id'', JNum 9), (''status'', JStr ''active''), (''type'', JStr ''simple''),
      (''count'', JNum 10), (''created_at'', JStr ''2024-01-01T00:00:00Z''),
      (''updated_at'', JStr ''2024-01-01T00:00:00Z''),
      (''price'', JObj [(''price'', JNum 20)]),
      (''preview'', JObj [(''content'', JStr ''desc'')]),
      (''stock'', JObj [(''stock'', JNum 3)])]"

text \<open>The nested fields of the extraction example of section 8.\<close>

definition blue_shirt :: js where
  "blue_shirt = JObj
     [(''title'', JStr ''Blue Shirt''), (''slug'', JStr ''blue-shirt''), (''lang'', JStr ''en''),
      (''auth_id'', JNum 9), (''status'', JStr ''active''), (''type'', JStr ''simple''),
      (''count'', JNum 10), (''created_at'', JStr ''2024-01-01T00:00:00Z''),
      (''updated_at'', JStr ''2024-01-01T00:00:00Z''),
      (''price'', JObj [(''price'', JNum (1999 / 100))]),
      (''preview'', JObj [(''content'', JStr ''x'')]),
      (''stock'', JObj [(''stock'', JNum 5)])]"

text \<open>A product whose \<^verbatim>\<open>price\<close> object is missing.\<close>

definition green_shirt :: js where
  "green_shirt = JObj
     [(''title'', JStr ''Green Shirt''), (''slug'', JStr ''green-shirt''), (''lang'', JStr ''en''),
      (''auth_id'', JNum 9), (''status'', JStr ''active''), (''type'', JStr ''simple''),
      (''count'', JNum 10), (''created_at'', JStr ''2024-01-01T00:00:00Z''),
      (''updated_at'', JStr ''2024-01-01T00:00:00Z''),
      (''preview'', JObj [(''content'', JStr ''desc'')]),
      (''stock'', JObj [(''stock'', JNum 3)])]"

text \<open>A product whose \<^verbatim>\<open>stock.stock\<close> is not a whole number.\<close>

definition grey_shirt :: js where
  "grey_shirt = JObj
     [(''title'', JStr ''Grey Shirt''), (''slug'', JStr ''grey-shirt''), (''lang'', JStr ''en''),
      (''auth_id'', JNum 9), (''status'', JStr ''active''), (''type'', JStr ''simple''),
      (''count'', JNum 10), (''created_at'', JStr ''2024-01-01T00:00:00Z''),
      (''updated_at'', JStr ''2024-01-01T00:00:00Z''),
      (''price'', JObj [(''price'', JNum 20)]),
      (''preview'', JObj [(''content'', JStr ''desc'')]),
      (''stock'', JObj [(''stock'', JNum (7 / 2))])]"

definition block :: "rat \<Rightarrow> string \<Rightarrow> js list \<Rightarrow> js" where
  "block i n ps =
     JObj [(''id'', JNum i), (''name'', JStr n), (''user_id'', JNum 9), (''products'', JArr ps)]"

definition document :: "js list \<Rightarrow> js" where
  "document blocks = JObj [(''products'', JArr blocks)]"

text \<open>
  An upstream server with eight documents (the scenario; a malformed product before
  a well-formed one; the same category and product listed twice; a body that is not
  JSON; a category block without \<^verbatim>\<open>id\<close> between two complete ones; the product of
  the extraction example; a product with \<^verbatim>\<open>stock.stock\<close> 3.5; a block with
  \<^verbatim>\<open>id\<close> 1 followed by a block with \<^verbatim>\<open>id\<close> 1.5) and no other,
  a \<^verbatim>\<open>Date\<close> that knows one timestamp, a \<^verbatim>\<open>parseInt\<close> that knows one number, and a
  client that accepts no operator objects.
\<close>

definition example_env :: env where
  "example_env =
     \<lparr>axios_get = (\<lambda>url.
        if url = apiURL ''1'' then Inr (document [block 1 ''Shirts'' [red_shirt]])
        else if url = apiURL ''2''
          then Inr (document [block 1 ''Shirts'' [green_shirt, red_shirt]])
        else if url = apiURL ''3''
          then Inr (document [block 1 ''Shirts'' [red_shirt, red_shirt],
                              block 1 ''Tops'' [red_shirt]])
        else if url = apiURL ''4'' then Inr (JStr ''<html>'')
        else if url = apiURL ''5''
          then Inr (document [block 1 ''Shirts'' [red_shirt],
                              JObj [(''name'', JStr ''Hats'')],
                              block 2 ''Caps'' [blue_shirt]])
        else if url = apiURL ''6'' then Inr (document [block 1 ''Shirts'' [blue_shirt]])
        else if url = apiURL ''7'' then Inr (document [block 1 ''Shirts'' [grey_shirt]])
        else if url = apiURL ''8''
          then Inr (document [block 1 ''Shirts'' [], block (3 / 2) ''Tops'' [red_shirt]])
        else Inl AxiosError),
      new_Date = (\<lambda>v. if v = JStr ''2024-01-01T00:00:00Z'' then Some 1704067200000 else None),
      parseInt = (\<lambda>t. if t = ''1'' then Some 1 else None),
      StringFilter = (\<lambda>kvs. None),
      StringFieldUpdate = (\<lambda>kvs. None),
      IntFieldUpdate = (\<lambda>kvs. None),
      FloatFieldUpdate = (\<lambda>kvs. None)\<rparr>"

definition empty_store :: store where
  "empty_store = \<lparr>categories = [], products = [], next_id = 1\<rparr>"

text \<open>The rows the scenario stores.\<close>

definition shirts_row :: category_row where
  "shirts_row = \<lparr>cat_id = 1, name = ''Shirts'', user_id = 9\<rparr>"

definition red_shirt_row :: product_row where
  "red_shirt_row =
     \<lparr>prod_id = 1, title = ''Red Shirt'', slug = ''red-shirt'', lang = ''en'', auth_id = 9,
      status = ''active'', type = ''simple'', count = 10, created_at = 1704067200000,
      updated_at = 1704067200000, category_id = 1, price = 20, preview = ''desc'',
      stock = 3\<rparr>"

definition blue_shirt_row :: product_row where
  "blue_shirt_row =
     \<lparr>prod_id = 1, title = ''Blue Shirt'', slug = ''blue-shirt'', lang = ''en'', auth_id = 9,
      status = ''active'', type = ''simple'', count = 10, created_at = 1704067200000,
      updated_at = 1704067200000, category_id = 1, price = 1999 / 100, preview = ''x'',
      stock = 5\<rparr>"

definition scenario_store :: store where
  "scenario_store = \<lparr>categories = [shirts_row], products = [red_shirt_row], next_id = 2\<rparr>"

section \<open>Where an inserted row comes from\<close>

text \<open>
  A Product row is inserted in the step of the outer loop for the category block
  \<open>c\<close>, begun in store \<open>s0\<close>, when the upsert of \<open>c\<close> succeeded, the inner loop ran
  through the products before some product \<open>p\<close> of \<open>c\<close> without an exception, and the
  loop body at \<open>p\<close> appended the row. This is a notion for stating properties of
  the loops; the program has no such function.
\<close>

definition inserted_in :: "env \<Rightarrow> store \<Rightarrow> js \<Rightarrow> product_row \<Rightarrow> bool" where
  "inserted_in E s0 c row =
     (\<exists>cd s1 before_p p after_p s2 s3.
        upsert_category s0 c = Inr (cd, s1) \<and>
        products_of c = Inr (before_p @ p # after_p) \<and>
        product_loop E s1 cd before_p = (None, s2) \<and>
        product_step E s2 cd p = Inr s3 \<and>
        products s3 = products s2 @ [row])"

section \<open>Basic facts\<close>

lemma bind_Inl [simp]: "bind (Inl e) f = Inl e"
  by (simp add: bind_def)

lemma bind_Inr [simp]: "bind (Inr x) f = f x"
  by (simp add: bind_def)

lemma bind_eq_Inr: "bind m f = Inr y \<longleftrightarrow> (\<exists>x. m = Inr x \<and> f x = Inr y)"
  by (cases m) simp_all

lemma bind_eq_Inl: "bind m f = Inl e \<longleftrightarrow> m = Inl e \<or> (\<exists>x. m = Inr x \<and> f x = Inl e)"
  by (cases m) simp_all

lemma trunc_of_int [simp]: "trunc (of_int i) = i"
  by (simp add: trunc_def)

lemma as_Int_of_int: "as_Int (JNum (of_int i)) = (if fits_int64 i then Some i else None)"
  by simp

lemma as_String_Some: "as_String v = Some t \<longleftrightarrow> v = JStr t"
  by (cases v) auto

lemma as_Float_Some: "as_Float v = Some q \<longleftrightarrow> v = JNum q"
  by (cases v) auto

lemma as_Int_Some: "as_Int v = Some i \<longleftrightarrow> (\<exists>q. v = JNum q \<and> trunc q = i \<and> fits_int64 i)"
  by (cases v) auto

lemma row_of_data_Some:
  assumes "row_of_data i d = Some r"
  shows "prod_id r = i"
    and "d_title d = JStr (title r)"
    and "as_Int (d_category_id d) = Some (category_id r)"
    and "d_price d = JNum (price r)"
    and "d_preview d = JStr (preview r)"
    and "as_Int (d_stock d) = Some (stock r)"
  using assms
  by (auto simp: row_of_data_def as_String_Some as_Float_Some split: option.splits)

lemma row_category_id:
  assumes "row_of_data i d = Some r" and "d_category_id d = JNum (of_int k)"
  shows "category_id r = k"
  using row_of_data_Some(3)[OF assms(1)] assms(2) by (simp split: if_splits)

lemma row_of_data_valid: "row_of_data i d = None \<Longrightarrow> row_of_data j d = None"
  by (auto simp: row_of_data_def split: option.splits)

lemma product_data_of_Inr:
  assumes "product_data_of E cd p = Inr d"
  shows "get_prop p ''title'' = Inr (d_title d)"
    and "d_category_id d = JNum (of_int (cat_id cd))"
    and "\<exists>v. get_prop p ''price'' = Inr v \<and> get_prop v ''price'' = Inr (d_price d)"
    and "\<exists>v. get_prop p ''preview'' = Inr v \<and> get_prop v ''content'' = Inr (d_preview d)"
    and "\<exists>v. get_prop p ''stock'' = Inr v \<and> get_prop v ''stock'' = Inr (d_stock d)"
  using assms unfolding product_data_of_def bind_eq_Inr by auto

lemma product_data_of_cong:
  "cat_id cd' = cat_id cd \<Longrightarrow> product_data_of E cd' p = product_data_of E cd p"
  by (simp add: product_data_of_def)

lemma find_eq_None: "(find P xs \<noteq> None) = (\<exists>x \<in> set xs. P x)"
  by (induction xs) auto

lemma productExists_alt:
  "productExists E s t c =
     (case title_filter E t of
        None \<Rightarrow> Inl ValidationError
      | Some f \<Rightarrow> Inr (\<exists>r \<in> set (products s). f (title r) \<and> category_id r = c))"
  by (cases "title_filter E t")
     (simp_all add: productExists_def product_findFirst_def find_eq_None del: not_None_eq)

lemma productExists_eq:
  "productExists E s t c = Inr b \<longleftrightarrow>
     (\<exists>f. title_filter E t = Some f \<and> b = (\<exists>r \<in> set (products s). f (title r) \<and> category_id r = c))"
  by (cases "title_filter E t") (auto simp: productExists_alt)

lemma productExists_Inl:
  "productExists E s t c = Inl e \<longleftrightarrow> title_filter E t = None \<and> e = ValidationError"
  by (cases "title_filter E t") (auto simp: productExists_alt)

lemma product_create_Inr:
  "product_create s d = Inr (row, s') \<longleftrightarrow>
     row_of_data (next_id s) d = Some row \<and> has_category s (category_id row) \<and>
     s' = s\<lparr>products := products s @ [row], next_id := next_id s + 1\<rparr>"
  by (auto simp: product_create_def split: option.splits)

lemma product_step_Inr:
  "product_step E s cd p = Inr s' \<longleftrightarrow>
     (\<exists>t. get_prop p ''title'' = Inr t \<and>
        (productExists E s t (cat_id cd) = Inr True \<and> s' = s \<or>
         productExists E s t (cat_id cd) = Inr False \<and>
         (\<exists>d row. product_data_of E cd p = Inr d \<and> product_create s d = Inr (row, s'))))"
  by (cases "get_prop p ''title''"; cases "product_data_of E cd p")
     (auto simp: product_step_def bind_eq_Inr split: if_splits)

lemma product_step_Inl:
  "product_step E s cd p = Inl e \<longleftrightarrow>
     get_prop p ''title'' = Inl e \<or>
     (\<exists>t. get_prop p ''title'' = Inr t \<and>
        (productExists E s t (cat_id cd) = Inl e \<or>
         productExists E s t (cat_id cd) = Inr False \<and>
         (product_data_of E cd p = Inl e \<or>
          (\<exists>d. product_data_of E cd p = Inr d \<and> product_create s d = Inl e))))"
  by (cases "get_prop p ''title''"; cases "product_data_of E cd p")
     (auto simp: product_step_def bind_eq_Inl split: if_splits)


subsection \<open>Rows are only added\<close>

lemma product_step_grows:
  assumes "product_step E s cd p = Inr s'"
  shows "categories s' = categories s"
    and "\<exists>ys. products s' = products s @ ys"
  using assms by (auto simp: product_step_Inr product_create_Inr)

lemma product_loop_grows:
  "product_loop E s cd ps = (r, s') \<Longrightarrow>
     categories s' = categories s \<and> (\<exists>ys. products s' = products s @ ys)"
proof (induction ps arbitrary: s)
  case Nil
  then show ?case by simp
next
  case (Cons p ps)
  show ?case
  proof (cases "product_step E s cd p")
    case (Inl e)
    with Cons.prems show ?thesis by simp
  next
    case (Inr s1)
    with Cons.prems have "product_loop E s1 cd ps = (r, s')" by simp
    from Cons.IH[OF this] product_step_grows[OF Inr] show ?thesis by auto
  qed
qed

subsection \<open>Running a step again on a later store\<close>

lemma product_step_again:
  assumes step: "product_step E s cd p = Inr s'"
    and sub: "set (products s') \<subseteq> set (products t)"
    and cd: "cat_id cd' = cat_id cd"
  shows "product_step E t cd' p = Inr t"
proof -
  from step obtain tt where tt: "get_prop p ''title'' = Inr tt"
    and alt: "productExists E s tt (cat_id cd) = Inr True \<and> s' = s \<or>
         productExists E s tt (cat_id cd) = Inr False \<and>
         (\<exists>d row. product_data_of E cd p = Inr d \<and> product_create s d = Inr (row, s'))"
    unfolding product_step_Inr by blast
  from alt have "productExists E t tt (cat_id cd) = Inr True"
  proof (elim disjE conjE exE)
    assume ex: "productExists E s tt (cat_id cd) = Inr True" and eq: "s' = s"
    then obtain f where f: "title_filter E tt = Some f"
      and "\<exists>r \<in> set (products s). f (title r) \<and> category_id r = cat_id cd"
      unfolding productExists_eq by auto
    with sub eq have "\<exists>r \<in> set (products t). f (title r) \<and> category_id r = cat_id cd"
      by blast
    with f show ?thesis unfolding productExists_eq by auto
  next
    fix d row
    assume d: "product_data_of E cd p = Inr d" and c: "product_create s d = Inr (row, s')"
    from c have row: "row_of_data (next_id s) d = Some row"
      and s': "products s' = products s @ [row]"
      by (auto simp: product_create_Inr)
    from product_data_of_Inr(1)[OF d] tt row_of_data_Some(2)[OF row]
      row_category_id[OF row product_data_of_Inr(2)[OF d]]
    have "tt = JStr (title row)" and "category_id row = cat_id cd" by auto
    moreover from s' sub have "row \<in> set (products t)" by auto
    ultimately show ?thesis unfolding productExists_eq by auto
  qed
  with tt cd show ?thesis unfolding product_step_Inr by auto
qed

lemma product_create_fails:
  assumes "product_create s d = Inl e" and "has_category s (cat_id cd)"
    and "d_category_id d = JNum (of_int (cat_id cd))"
  shows "row_of_data i d = None \<and> e = ValidationError"
proof (cases "row_of_data (next_id s) d")
  case None
  with assms(1) row_of_data_valid[OF None, of i] show ?thesis
    by (simp add: product_create_def)
next
  case (Some row)
  from row_category_id[OF Some assms(3)] have "category_id row = cat_id cd" .
  with assms(1,2) Some show ?thesis by (simp add: product_create_def)
qed

lemma product_step_fails_again:
  assumes step: "product_step E s cd p = Inl e"
    and eq: "products t = products s"
    and cd: "cat_id cd' = cat_id cd"
    and fk: "has_category s (cat_id cd)"
  shows "product_step E t cd' p = Inl e"
proof -
  have ex: "productExists E t tt (cat_id cd') = productExists E s tt (cat_id cd)" for tt
    by (cases "title_filter E tt") (simp_all add: productExists_alt eq cd)
  have data: "product_data_of E cd' p = product_data_of E cd p"
    by (rule product_data_of_cong[OF cd])
  from step consider
      (a) "get_prop p ''title'' = Inl e"
    | (b) tt where "get_prop p ''title'' = Inr tt" "productExists E s tt (cat_id cd) = Inl e"
    | (c) tt where "get_prop p ''title'' = Inr tt" "productExists E s tt (cat_id cd) = Inr False"
        "product_data_of E cd p = Inl e"
    | (d) tt d where "get_prop p ''title'' = Inr tt" "productExists E s tt (cat_id cd) = Inr False"
        "product_data_of E cd p = Inr d" "product_create s d = Inl e"
    unfolding product_step_Inl by blast
  then show ?thesis
  proof cases
    case a
    then show ?thesis by (simp add: product_step_Inl)
  next
    case b
    then show ?thesis by (simp add: product_step_Inl ex)
  next
    case c
    then show ?thesis by (simp add: product_step_Inl ex data)
  next
    case d
    from product_create_fails[OF d(4) fk product_data_of_Inr(2)[OF d(3)], of "next_id t"]
    have "product_create t d = Inl e" by (simp add: product_create_def)
    with d show ?thesis by (simp add: product_step_Inl ex data)
  qed
qed

lemma product_loop_again:
  assumes "product_loop E s cd ps = (None, s')"
    and "set (products s') \<subseteq> set (products t)"
    and "cat_id cd' = cat_id cd"
  shows "product_loop E t cd' ps = (None, t)"
  using assms
proof (induction ps arbitrary: s)
  case Nil
  then show ?case by simp
next
  case (Cons p ps)
  from Cons.prems(1) obtain s1 where s1: "product_step E s cd p = Inr s1"
    and rest: "product_loop E s1 cd ps = (None, s')"
    by (cases "product_step E s cd p") auto
  from product_loop_grows[OF rest] Cons.prems(2)
  have "set (products s1) \<subseteq> set (products t)" by auto
  from product_step_again[OF s1 this Cons.prems(3)] Cons.IH[OF rest Cons.prems(2,3)]
  show ?case by simp
qed

lemma product_loop_fails_again:
  assumes "product_loop E s cd ps = (Some e, s')"
    and "products t = products s'"
    and "cat_id cd' = cat_id cd"
    and "has_category s (cat_id cd)"
  shows "product_loop E t cd' ps = (Some e, t)"
  using assms
proof (induction ps arbitrary: s)
  case Nil
  then show ?case by simp
next
  case (Cons p ps)
  show ?case
  proof (cases "product_step E s cd p")
    case (Inl e')
    with Cons.prems(1) have "e' = e" "s' = s" by simp_all
    with product_step_fails_again[OF Inl _ Cons.prems(3,4), of t] Cons.prems(2)
    show ?thesis by simp
  next
    case (Inr s1)
    with Cons.prems(1) have rest: "product_loop E s1 cd ps = (Some e, s')" by simp
    from product_loop_grows[OF rest] Cons.prems(2)
    have "set (products s1) \<subseteq> set (products t)" by auto
    from product_step_again[OF Inr this Cons.prems(3)]
    have "product_step E t cd' p = Inr t" .
    moreover from product_step_grows(1)[OF Inr] Cons.prems(4)
    have "has_category s1 (cat_id cd)" by (simp add: has_category_def)
    from Cons.IH[OF rest Cons.prems(2,3) this]
    have "product_loop E t cd' ps = (Some e, t)" .
    ultimately show ?thesis by simp
  qed
qed


subsection \<open>The upsert and the outer loop\<close>

lemma category_upsert_Inr:
  assumes "category_upsert s i n u = Inr (cd, s1)"
  shows "products s1 = products s" and "next_id s1 = next_id s"
    and "as_Int i = Some (cat_id cd)" and "n = JStr (name cd)"
    and "as_Int u = Some (user_id cd)"
    and "categories s1 =
      (if has_category s (cat_id cd)
       then map (\<lambda>r. if cat_id r = cat_id cd then r\<lparr>name := name cd, user_id := user_id cd\<rparr> else r)
              (categories s)
       else categories s @ [cd])"
  using assms
  by (auto simp: category_upsert_def Let_def as_String_Some
      split: option.splits if_splits)

lemma overwrite_keeps_ids:
  "map cat_id (map (\<lambda>r. if cat_id r = i then r\<lparr>name := n, user_id := u\<rparr> else r) rows) =
   map cat_id rows"
  by (induction rows) auto

lemma has_category_alt: "has_category s i \<longleftrightarrow> i \<in> set (map cat_id (categories s))"
  by (simp add: has_category_def)

lemma category_upsert_ids:
  assumes "category_upsert s i n u = Inr (cd, s1)"
  shows "map cat_id (categories s1) =
    (if has_category s (cat_id cd) then map cat_id (categories s)
     else map cat_id (categories s) @ [cat_id cd])"
  using assms
  by (auto simp: category_upsert_def Let_def overwrite_keeps_ids
      split: option.splits if_splits)

lemma category_upsert_has:
  assumes "category_upsert s i n u = Inr (cd, s1)"
  shows "has_category s1 (cat_id cd)"
  unfolding has_category_alt category_upsert_ids[OF assms]
  by (simp add: has_category_alt)

lemma category_upsert_any_store:
  "category_upsert s i n u = Inr (cd, s1) \<Longrightarrow>
     \<exists>t1. category_upsert t i n u = Inr (cd, t1) \<and> products t1 = products t"
  by (auto simp: category_upsert_def Let_def split: option.splits if_splits)

lemma category_upsert_fails_any_store:
  "category_upsert s i n u = Inl e \<Longrightarrow> category_upsert t i n u = Inl e"
  by (auto simp: category_upsert_def Let_def split: option.splits if_splits)

lemma upsert_category_Inr:
  "upsert_category s c = Inr (cd, s1) \<longleftrightarrow>
     (\<exists>i n u. get_prop c ''id'' = Inr i \<and> get_prop c ''name'' = Inr n \<and>
        get_prop c ''user_id'' = Inr u \<and> category_upsert s i n u = Inr (cd, s1))"
  by (cases "get_prop c ''id''"; cases "get_prop c ''name''"; cases "get_prop c ''user_id''")
     (auto simp: upsert_category_def)

lemma upsert_category_any_store:
  "upsert_category s c = Inr (cd, s1) \<Longrightarrow>
     \<exists>t1. upsert_category t c = Inr (cd, t1) \<and> products t1 = products t"
  unfolding upsert_category_Inr using category_upsert_any_store by blast

lemma upsert_category_fails_any_store:
  "upsert_category s c = Inl e \<Longrightarrow> upsert_category t c = Inl e"
  by (cases "get_prop c ''id''"; cases "get_prop c ''name''"; cases "get_prop c ''user_id''")
     (auto simp: upsert_category_def dest: category_upsert_fails_any_store)

lemma upsert_category_facts:
  assumes "upsert_category s c = Inr (cd, s1)"
  shows "products s1 = products s" and "next_id s1 = next_id s"
    and "has_category s1 (cat_id cd)"
    and "\<exists>v. get_prop c ''id'' = Inr v \<and> as_Int v = Some (cat_id cd)"
    and "get_prop c ''name'' = Inr (JStr (name cd))"
    and "\<exists>v. get_prop c ''user_id'' = Inr v \<and> as_Int v = Some (user_id cd)"
  using assms unfolding upsert_category_Inr
  by (auto dest: category_upsert_Inr category_upsert_has)

lemma category_step_cases:
  assumes "category_step E s c = (r, s')"
  obtains (upsert_failed) e where "upsert_category s c = Inl e" "r = Some e" "s' = s"
  | (not_iterable) cd s1 e where "upsert_category s c = Inr (cd, s1)"
      "products_of c = Inl e" "r = Some e" "s' = s1"
  | (looped) cd s1 ps where "upsert_category s c = Inr (cd, s1)"
      "products_of c = Inr ps" "product_loop E s1 cd ps = (r, s')"
  using assms
  by (cases "upsert_category s c"; cases "products_of c")
     (auto simp: category_step_def split: prod.splits)

lemma category_step_grows:
  assumes "category_step E s c = (r, s')"
  shows "\<exists>ys. products s' = products s @ ys"
  using assms
proof (cases rule: category_step_cases)
  case (looped cd s1 ps)
  from product_loop_grows[OF looped(3)] upsert_category_facts(1)[OF looped(1)]
  show ?thesis by auto
qed (auto dest: upsert_category_facts(1))

lemma category_step_again:
  assumes "category_step E s c = (None, s')"
    and "set (products s') \<subseteq> set (products t)"
  shows "\<exists>t'. category_step E t c = (None, t') \<and> products t' = products t"
  using assms(1)
proof (cases rule: category_step_cases)
  case (looped cd s1 ps)
  from upsert_category_any_store[OF looped(1), of t] obtain t1
    where t1: "upsert_category t c = Inr (cd, t1)" "products t1 = products t" by blast
  from product_loop_again[OF looped(3), of t1 cd] assms(2) t1(2)
  have "product_loop E t1 cd ps = (None, t1)" by simp
  with t1 looped(2) show ?thesis by (simp add: category_step_def)
qed simp_all

lemma category_step_fails_again:
  assumes "category_step E s c = (Some e, s')"
    and "products t = products s'"
  shows "\<exists>t'. category_step E t c = (Some e, t') \<and> products t' = products t"
  using assms(1)
proof (cases rule: category_step_cases)
  case (upsert_failed e')
  with upsert_category_fails_any_store[of s c e' t] show ?thesis
    by (simp add: category_step_def)
next
  case (not_iterable cd s1 e')
  from upsert_category_any_store[OF not_iterable(1), of t] obtain t1
    where t1: "upsert_category t c = Inr (cd, t1)" "products t1 = products t" by blast
  with not_iterable show ?thesis by (simp add: category_step_def)
next
  case (looped cd s1 ps)
  from upsert_category_any_store[OF looped(1), of t] obtain t1
    where t1: "upsert_category t c = Inr (cd, t1)" "products t1 = products t" by blast
  from product_loop_fails_again[OF looped(3), of t1 cd] assms(2) t1(2)
    upsert_category_facts(3)[OF looped(1)]
  have "product_loop E t1 cd ps = (Some e, t1)" by simp
  with t1 looped(2) show ?thesis by (simp add: category_step_def)
qed

lemma category_loop_grows:
  "category_loop E s cs = (r, s') \<Longrightarrow> \<exists>ys. products s' = products s @ ys"
proof (induction cs arbitrary: s)
  case Nil
  then show ?case by simp
next
  case (Cons c cs)
  obtain r1 s1 where step: "category_step E s c = (r1, s1)" by (cases "category_step E s c")
  show ?case
  proof (cases r1)
    case None
    with step Cons.prems have "category_loop E s1 cs = (r, s')" by simp
    from Cons.IH[OF this] category_step_grows[OF step] show ?thesis by auto
  next
    case (Some e)
    with step Cons.prems have "s' = s1" by simp
    with category_step_grows[OF step] show ?thesis by simp
  qed
qed

lemma category_loop_again:
  assumes "category_loop E s cs = (None, s')"
    and "set (products s') \<subseteq> set (products t)"
  shows "\<exists>t'. category_loop E t cs = (None, t') \<and> products t' = products t"
  using assms
proof (induction cs arbitrary: s t)
  case Nil
  then show ?case by simp
next
  case (Cons c cs)
  obtain r1 s1 where step: "category_step E s c = (r1, s1)" by (cases "category_step E s c")
  with Cons.prems(1) have r1: "r1 = None" and rest: "category_loop E s1 cs = (None, s')"
    by (cases r1; simp)+
  from category_loop_grows[OF rest] Cons.prems(2)
  have "set (products s1) \<subseteq> set (products t)" by auto
  from category_step_again[OF step[unfolded r1] this] obtain t1
    where t1: "category_step E t c = (None, t1)" "products t1 = products t" by blast
  from Cons.IH[OF rest, of t1] Cons.prems(2) t1(2) obtain t'
    where "category_loop E t1 cs = (None, t')" "products t' = products t1" by auto
  with t1 show ?case by simp
qed

lemma category_loop_fails_again:
  assumes "category_loop E s cs = (Some e, s')"
    and "products t = products s'"
  shows "\<exists>t'. category_loop E t cs = (Some e, t') \<and> products t' = products t"
  using assms
proof (induction cs arbitrary: s t)
  case Nil
  then show ?case by simp
next
  case (Cons c cs)
  obtain r1 s1 where step: "category_step E s c = (r1, s1)" by (cases "category_step E s c")
  show ?case
  proof (cases r1)
    case None
    with step Cons.prems(1) have rest: "category_loop E s1 cs = (Some e, s')" by simp
    from category_loop_grows[OF rest] Cons.prems(2)
    have "set (products s1) \<subseteq> set (products t)" by auto
    from category_step_again[OF step[unfolded None] this] obtain t1
      where t1: "category_step E t c = (None, t1)" "products t1 = products t" by blast
    from Cons.IH[OF rest, of t1] Cons.prems(2) t1(2) obtain t'
      where "category_loop E t1 cs = (Some e, t')" "products t' = products t1" by auto
    with t1 show ?thesis by simp
  next
    case (Some e')
    with step Cons.prems(1) have "e' = e" "s' = s1" by simp_all
    with category_step_fails_again[of E s c e s1 t] step Some Cons.prems(2) obtain t1
      where "category_step E t c = (Some e, t1)" "products t1 = products t" by auto
    then show ?thesis by simp
  qed
qed

subsection \<open>The example runs\<close>

lemmas model_defs =
  fetch_data_def fetch_categories_def apiURL_def category_step_def upsert_category_def
  products_of_def category_upsert_def product_step_def productExists_def
  product_findFirst_def product_data_of_def product_create_def row_of_data_def
  has_category_def fetch_ok_def fetch_failed_def trunc_def fits_int64_def Let_def

lemmas example_defs =
  example_env_def document_def block_def red_shirt_def blue_shirt_def green_shirt_def
  grey_shirt_def
  empty_store_def shirts_row_def red_shirt_row_def blue_shirt_row_def scenario_store_def

lemma scenario_run: "fetch_data example_env empty_store ''1'' = (fetch_ok, scenario_store)"
  by (simp add: model_defs example_defs)

section \<open>Ingesting a document twice\<close>

text \<open>
  C1. Ingesting the same remote document twice in a row leaves the Product table
  exactly as the first ingestion left it, so the row count is the same: in the second
  run every existence check that the first run passed or answered by an insert returns
  true and the insert is skipped, and a run that failed fails again at the same place
  with the same response.
\<close>

theorem ingest_twice_same_products:
  "fst (fetch_data E (snd (fetch_data E s rid)) rid) = fst (fetch_data E s rid) \<and>
   products (snd (fetch_data E (snd (fetch_data E s rid)) rid)) = products (snd (fetch_data E s rid)) \<and>
   length (products (snd (fetch_data E (snd (fetch_data E s rid)) rid))) =
   length (products (snd (fetch_data E s rid)))"
proof (cases "fetch_categories E rid")
  case (Inl e)
  then show ?thesis by (simp add: fetch_data_def)
next
  case (Inr cs)
  obtain r s1 where run: "category_loop E s cs = (r, s1)" by (cases "category_loop E s cs")
  show ?thesis
  proof (cases r)
    case None
    from category_loop_again[OF run[unfolded None], of s1] obtain s2
      where "category_loop E s1 cs = (None, s2)" "products s2 = products s1" by auto
    with Inr run None show ?thesis by (simp add: fetch_data_def)
  next
    case (Some e)
    from category_loop_fails_again[OF run[unfolded Some], of s1] obtain s2
      where "category_loop E s1 cs = (Some e, s2)" "products s2 = products s1" by auto
    with Inr run Some show ?thesis by (simp add: fetch_data_def)
  qed
qed

theorem ingest_twice_same_products_witness:
  "fetch_data example_env empty_store ''1'' = (fetch_ok, scenario_store) \<and>
   fst (fetch_data example_env scenario_store ''1'') = fetch_ok \<and>
   products (snd (fetch_data example_env scenario_store ''1'')) = [red_shirt_row] \<and>
   length (products (snd (fetch_data example_env scenario_store ''1''))) = 1"
  using ingest_twice_same_products [of example_env empty_store "''1''"]
  by (simp add: scenario_run scenario_store_def)

section \<open>The existence check\<close>

text \<open>
  C5. For a title string and a category id, \<open>productExists\<close> answers true exactly when
  some Product row has that very title and that very category id. The comparison is
  equality of strings: no case folding and no trimming.
\<close>

theorem productExists_exact_match:
  "productExists E s (JStr t) c =
     Inr (\<exists>r \<in> set (products s). title r = t \<and> category_id r = c)"
  by (simp add: productExists_alt)

theorem productExists_exact_match_witness:
  "productExists example_env scenario_store (JStr ''Red Shirt'') 1 = Inr True \<and>
   productExists example_env scenario_store (JStr ''red shirt'') 1 = Inr False \<and>
   productExists example_env scenario_store (JStr ''Red Shirt '') 1 = Inr False \<and>
   productExists example_env scenario_store (JStr ''Red Shirt'') 2 = Inr False"
  using productExists_exact_match [of example_env scenario_store "''Red Shirt''" 1]
    productExists_exact_match [of example_env scenario_store "''red shirt''" 1]
    productExists_exact_match [of example_env scenario_store "''Red Shirt ''" 1]
    productExists_exact_match [of example_env scenario_store "''Red Shirt''" 2]
  by (simp add: scenario_store_def red_shirt_row_def)

section \<open>Ingestion never deletes\<close>

lemma upsert_category_ids:
  assumes "upsert_category s c = Inr (cd, s1)"
  shows "\<exists>ys. map cat_id (categories s1) = map cat_id (categories s) @ ys"
  using assms unfolding upsert_category_Inr
  by (auto dest!: category_upsert_ids split: if_splits)

lemma category_step_keeps_ids:
  assumes "category_step E s c = (r, s')"
  shows "\<exists>ys. map cat_id (categories s') = map cat_id (categories s) @ ys"
  using assms
proof (cases rule: category_step_cases)
  case (looped cd s1 ps)
  from product_loop_grows[OF looped(3)] upsert_category_ids[OF looped(1)]
  show ?thesis by auto
qed (auto dest: upsert_category_ids)

lemma category_loop_keeps_ids:
  "category_loop E s cs = (r, s') \<Longrightarrow>
     \<exists>ys. map cat_id (categories s') = map cat_id (categories s) @ ys"
proof (induction cs arbitrary: s)
  case Nil
  then show ?case by simp
next
  case (Cons c cs)
  obtain r1 s1 where step: "category_step E s c = (r1, s1)" by (cases "category_step E s c")
  show ?case
  proof (cases r1)
    case None
    with step Cons.prems have "category_loop E s1 cs = (r, s')" by simp
    from Cons.IH[OF this] category_step_keeps_ids[OF step] show ?thesis by auto
  next
    case (Some e)
    with step Cons.prems have "s' = s1" by simp
    with category_step_keeps_ids[OF step] show ?thesis by simp
  qed
qed

lemma fetch_data_cases:
  assumes "fetch_data E s rid = (resp, s')"
  obtains (no_document) e where "fetch_categories E rid = Inl e" "resp = fetch_failed" "s' = s"
  | (completed) cs where "fetch_categories E rid = Inr cs" "category_loop E s cs = (None, s')"
      "resp = fetch_ok"
  | (aborted) cs e where "fetch_categories E rid = Inr cs" "category_loop E s cs = (Some e, s')"
      "resp = fetch_failed"
  using assms
  by (cases "fetch_categories E rid")
     (auto simp: fetch_data_def split: prod.splits option.splits)

text \<open>
  C8. An ingestion run removes no row: the Product table after the run is the table
  before it followed by the rows the run inserted, and the ids of the Category table
  after the run are the ids before it followed by the new ones (a Category row that
  was there keeps its place and its id; only its name and owner may be overwritten).
  This holds whatever the upstream response contains and whether the run succeeds.
\<close>

theorem ingestion_never_deletes:
  "(\<exists>ys. products (snd (fetch_data E s rid)) = products s @ ys) \<and>
   (\<exists>ys. map cat_id (categories (snd (fetch_data E s rid))) = map cat_id (categories s) @ ys)"
proof -
  obtain resp s' where run: "fetch_data E s rid = (resp, s')" by (cases "fetch_data E s rid")
  then have "(\<exists>ys. products s' = products s @ ys) \<and>
    (\<exists>ys. map cat_id (categories s') = map cat_id (categories s) @ ys)"
    by (cases rule: fetch_data_cases)
       (auto dest: category_loop_grows category_loop_keeps_ids)
  with run show ?thesis by simp
qed

theorem ingestion_never_deletes_witness:
  "fetch_data example_env
     \<lparr>categories = [\<lparr>cat_id = 7, name = ''Hats'', user_id = 9\<rparr>],
      products = [red_shirt_row\<lparr>category_id := 7\<rparr>], next_id = 2\<rparr> ''1'' =
     (fetch_ok,
      \<lparr>categories = [\<lparr>cat_id = 7, name = ''Hats'', user_id = 9\<rparr>, shirts_row],
       products = [red_shirt_row\<lparr>category_id := 7\<rparr>, red_shirt_row\<lparr>prod_id := 2\<rparr>],
       next_id = 3\<rparr>) \<and>
   (\<exists>ys. products (snd (fetch_data example_env
     \<lparr>categories = [\<lparr>cat_id = 7, name = ''Hats'', user_id = 9\<rparr>],
      products = [red_shirt_row\<lparr>category_id := 7\<rparr>], next_id = 2\<rparr> ''1'')) =
      [red_shirt_row\<lparr>category_id := 7\<rparr>] @ ys) \<and>
   (\<exists>ys. map cat_id (categories (snd (fetch_data example_env
     \<lparr>categories = [\<lparr>cat_id = 7, name = ''Hats'', user_id = 9\<rparr>],
      products = [red_shirt_row\<lparr>category_id := 7\<rparr>], next_id = 2\<rparr> ''1''))) = [7] @ ys)"
  using ingestion_never_deletes [of example_env
     "\<lparr>categories = [\<lparr>cat_id = 7, name = ''Hats'', user_id = 9\<rparr>],
      products = [red_shirt_row\<lparr>category_id := 7\<rparr>], next_id = 2\<rparr>" "''1''"]
  by (simp add: model_defs example_defs)

section \<open>A pair listed more than once\<close>

lemma product_step_unique:
  assumes "product_step E s cd p = Inr s'"
    and "distinct (map (\<lambda>r. (title r, category_id r)) (products s))"
  shows "distinct (map (\<lambda>r. (title r, category_id r)) (products s'))"
proof -
  from assms(1) consider (skipped) "s' = s"
    | (inserted) t d row where "get_prop p ''title'' = Inr t"
        "productExists E s t (cat_id cd) = Inr False"
        "product_data_of E cd p = Inr d" "product_create s d = Inr (row, s')"
    unfolding product_step_Inr by blast
  then show ?thesis
  proof cases
    case skipped
    with assms(2) show ?thesis by simp
  next
    case inserted
    from inserted(4) have row: "row_of_data (next_id s) d = Some row"
      and s': "products s' = products s @ [row]"
      by (auto simp: product_create_Inr)
    from product_data_of_Inr(1)[OF inserted(3)] inserted(1) row_of_data_Some(2)[OF row]
      row_category_id[OF row product_data_of_Inr(2)[OF inserted(3)]]
    have "t = JStr (title row)" and "category_id row = cat_id cd" by auto
    with inserted(2)
    have "\<not> (\<exists>r \<in> set (products s). title r = title row \<and> category_id r = category_id row)"
      by (simp add: productExists_alt)
    with assms(2) s' show ?thesis by auto
  qed
qed

lemma product_loop_unique:
  "product_loop E s cd ps = (r, s') \<Longrightarrow>
   distinct (map (\<lambda>r. (title r, category_id r)) (products s)) \<Longrightarrow>
   distinct (map (\<lambda>r. (title r, category_id r)) (products s'))"
proof (induction ps arbitrary: s)
  case Nil
  then show ?case by simp
next
  case (Cons p ps)
  show ?case
  proof (cases "product_step E s cd p")
    case (Inl e)
    with Cons.prems show ?thesis by simp
  next
    case (Inr s1)
    with Cons.prems(1) have "product_loop E s1 cd ps = (r, s')" by simp
    from Cons.IH[OF this product_step_unique[OF Inr Cons.prems(2)]] show ?thesis .
  qed
qed

lemma category_step_unique:
  assumes "category_step E s c = (r, s')"
    and "distinct (map (\<lambda>r. (title r, category_id r)) (products s))"
  shows "distinct (map (\<lambda>r. (title r, category_id r)) (products s'))"
  using assms(1)
proof (cases rule: category_step_cases)
  case (looped cd s1 ps)
  from product_loop_unique[OF looped(3)] upsert_category_facts(1)[OF looped(1)] assms(2)
  show ?thesis by simp
qed (use assms(2) in \<open>auto dest: upsert_category_facts(1)\<close>)

lemma category_loop_unique:
  "category_loop E s cs = (r, s') \<Longrightarrow>
   distinct (map (\<lambda>r. (title r, category_id r)) (products s)) \<Longrightarrow>
   distinct (map (\<lambda>r. (title r, category_id r)) (products s'))"
proof (induction cs arbitrary: s)
  case Nil
  then show ?case by simp
next
  case (Cons c cs)
  obtain r1 s1 where step: "category_step E s c = (r1, s1)" by (cases "category_step E s c")
  note u = category_step_unique[OF step Cons.prems(2)]
  show ?case
  proof (cases r1)
    case None
    with step Cons.prems(1) have "category_loop E s1 cs = (r, s')" by simp
    from Cons.IH[OF this u] show ?thesis .
  next
    case (Some e)
    with step Cons.prems(1) have "s' = s1" by simp
    with u show ?thesis by simp
  qed
qed

text \<open>
  C9. The existence check reads the store as it is just before each insert, so a
  document that lists the same title under the same category id several times, in one
  block or in several, adds at most one row for the pair: if no two Product rows
  share their (title, category id) pair before the run, none do after it.
\<close>

theorem repeated_pair_inserted_once:
  assumes "distinct (map (\<lambda>r. (title r, category_id r)) (products s))"
  shows "distinct (map (\<lambda>r. (title r, category_id r)) (products (snd (fetch_data E s rid))))"
proof -
  obtain resp s' where run: "fetch_data E s rid = (resp, s')" by (cases "fetch_data E s rid")
  then have "distinct (map (\<lambda>r. (title r, category_id r)) (products s'))"
    using assms by (cases rule: fetch_data_cases) (auto dest: category_loop_unique)
  with run show ?thesis by simp
qed

lemma twice_listed_run:
  "fetch_data example_env empty_store ''3'' =
     (fetch_ok, \<lparr>categories = [\<lparr>cat_id = 1, name = ''Tops'', user_id = 9\<rparr>],
                 products = [red_shirt_row], next_id = 2\<rparr>)"
  by (simp add: model_defs example_defs)

theorem repeated_pair_inserted_once_witness:
  "distinct (map (\<lambda>r. (title r, category_id r)) (products empty_store)) \<and>
   products (snd (fetch_data example_env empty_store ''3'')) = [red_shirt_row] \<and>
   distinct (map (\<lambda>r. (title r, category_id r))
     (products (snd (fetch_data example_env empty_store ''3''))))"
proof -
  have h: "distinct (map (\<lambda>r. (title r, category_id r)) (products empty_store))"
    by (simp add: empty_store_def)
  from repeated_pair_inserted_once [OF h, of example_env "''3''"] h
  show ?thesis by (simp add: twice_listed_run)
qed

section \<open>Failures\<close>

lemma product_loop_append:
  "product_loop E s cd (xs @ ys) =
     (case product_loop E s cd xs of
        (None, s1) \<Rightarrow> product_loop E s1 cd ys
      | (Some e, s1) \<Rightarrow> (Some e, s1))"
  by (induction xs arbitrary: s) (auto split: sum.splits)

lemma category_loop_append:
  "category_loop E s (xs @ ys) =
     (case category_loop E s xs of
        (None, s1) \<Rightarrow> category_loop E s1 ys
      | (Some e, s1) \<Rightarrow> (Some e, s1))"
  by (induction xs arbitrary: s) (auto split: prod.splits option.splits)














section \<open>A malformed product\<close>

lemma product_step_bad_price:
  assumes "productExists E s t (cat_id cd) = Inr False"
    and "get_prop p ''title'' = Inr t"
    and "get_prop p ''price'' = Inr v"
    and "\<forall>q. get_prop v ''price'' \<noteq> Inr (JNum q)"
  shows "\<exists>e. product_step E s cd p = Inl e"
proof (cases "product_step E s cd p")
  case (Inl e)
  then show ?thesis by blast
next
  case (Inr s')
  with assms(1,2) obtain d row where d: "product_data_of E cd p = Inr d"
    and c: "product_create s d = Inr (row, s')"
    unfolding product_step_Inr by auto
  from c have "row_of_data (next_id s) d = Some row" by (simp add: product_create_Inr)
  from row_of_data_Some(4)[OF this] product_data_of_Inr(3)[OF d] assms(3,4)
  show ?thesis by auto
qed

lemma malformed_document:
  "fetch_categories example_env ''2'' = Inr [block 1 ''Shirts'' [green_shirt, red_shirt]]"
  by (simp add: model_defs example_defs)

lemma malformed_run:
  "fetch_data example_env empty_store ''2'' =
     (fetch_failed, \<lparr>categories = [shirts_row], products = [], next_id = 1\<rparr>)"
  by (simp add: model_defs example_defs)

lemma red_shirt_step:
  "product_step example_env \<lparr>categories = [shirts_row], products = [], next_id = 1\<rparr>
     shirts_row red_shirt = Inr scenario_store"
  by (simp add: model_defs example_defs)

text \<open>
  C3 does not hold. The document has one category block with two products: the
  first has no \<^verbatim>\<open>price\<close> object, the second is the well-formed product of the
  scenario, which is not in the store. The run stops at the first: it answers with the
  failure response and the Product table is still empty, although the loop body would
  have inserted the second product had it been reached.
\<close>

theorem malformed_product_counterexample:
  "fetch_categories example_env ''2'' = Inr [block 1 ''Shirts'' [green_shirt, red_shirt]] \<and>
   fst (fetch_data example_env empty_store ''2'') = fetch_failed \<and>
   products (snd (fetch_data example_env empty_store ''2'')) = [] \<and>
   product_step example_env (snd (fetch_data example_env empty_store ''2''))
     shirts_row red_shirt = Inr scenario_store \<and>
   products scenario_store = [red_shirt_row]"
  by (simp add: malformed_document malformed_run red_shirt_step)
     (simp add: scenario_store_def)

text \<open>
  C3 as amended. A product that is not yet stored and whose \<^verbatim>\<open>price.price\<close> is not a
  number (the \<^verbatim>\<open>price\<close> object is missing, or its \<^verbatim>\<open>price\<close> is missing or of another
  type) aborts the run at that product: the blocks and the products before it have
  been processed, the run answers with the failure response, and the store is the one
  those earlier steps left, so no product or block after it is processed.
\<close>

theorem malformed_product_aborts:
  assumes "fetch_categories E rid = Inr (before_c @ c # after_c)"
    and "category_loop E s before_c = (None, s0)"
    and "upsert_category s0 c = Inr (cd, s1)"
    and "products_of c = Inr (before_p @ p # after_p)"
    and "product_loop E s1 cd before_p = (None, s2)"
    and "get_prop p ''title'' = Inr t"
    and "productExists E s2 t (cat_id cd) = Inr False"
    and "get_prop p ''price'' = Inr v"
    and "\<forall>q. get_prop v ''price'' \<noteq> Inr (JNum q)"
  shows "fetch_data E s rid = (fetch_failed, s2)"
proof -
  from product_step_bad_price[OF assms(7,6,8,9)] obtain e
    where "product_step E s2 cd p = Inl e" ..
  with assms(5) have "product_loop E s1 cd (before_p @ p # after_p) = (Some e, s2)"
    by (simp add: product_loop_append)
  with assms(3,4) have "category_step E s0 c = (Some e, s2)"
    by (simp add: category_step_def)
  with assms(2) have "category_loop E s (before_c @ c # after_c) = (Some e, s2)"
    by (simp add: category_loop_append)
  with assms(1) show ?thesis by (simp add: fetch_data_def)
qed

theorem malformed_product_aborts_witness:
  "fetch_categories example_env ''2'' =
     Inr ([] @ block 1 ''Shirts'' [green_shirt, red_shirt] # []) \<and>
   category_loop example_env empty_store [] = (None, empty_store) \<and>
   upsert_category empty_store (block 1 ''Shirts'' [green_shirt, red_shirt]) =
     Inr (shirts_row, \<lparr>categories = [shirts_row], products = [], next_id = 1\<rparr>) \<and>
   products_of (block 1 ''Shirts'' [green_shirt, red_shirt]) =
     Inr ([] @ green_shirt # [red_shirt]) \<and>
   get_prop green_shirt ''title'' = Inr (JStr ''Green Shirt'') \<and>
   productExists example_env \<lparr>categories = [shirts_row], products = [], next_id = 1\<rparr>
     (JStr ''Green Shirt'') (cat_id shirts_row) = Inr False \<and>
   get_prop green_shirt ''price'' = Inr JUndefined \<and>
   fetch_data example_env empty_store ''2'' =
     (fetch_failed, \<lparr>categories = [shirts_row], products = [], next_id = 1\<rparr>)"
proof -
  let ?s1 = "\<lparr>categories = [shirts_row], products = [], next_id = 1\<rparr>"
  let ?c = "block 1 ''Shirts'' [green_shirt, red_shirt]"
  have h1: "fetch_categories example_env ''2'' = Inr ([] @ ?c # [])"
    by (simp add: malformed_document)
  have h2: "category_loop example_env empty_store [] = (None, empty_store)" by simp
  have h3: "upsert_category empty_store ?c = Inr (shirts_row, ?s1)"
    by (simp add: model_defs example_defs)
  have h4: "products_of ?c = Inr ([] @ green_shirt # [red_shirt])"
    by (simp add: model_defs example_defs)
  have h5: "product_loop example_env ?s1 shirts_row [] = (None, ?s1)" by simp
  have h6: "get_prop green_shirt ''title'' = Inr (JStr ''Green Shirt'')"
    by (simp add: green_shirt_def)
  have h7: "productExists example_env ?s1 (JStr ''Green Shirt'') (cat_id shirts_row) = Inr False"
    by (simp add: productExists_alt)
  have h8: "get_prop green_shirt ''price'' = Inr JUndefined"
    by (simp add: green_shirt_def)
  have h9: "\<forall>q. get_prop JUndefined ''price'' \<noteq> Inr (JNum q)" by simp
  from malformed_product_aborts [OF h1 h2 h3 h4 h5 h6 h7 h8 h9] h1 h2 h3 h4 h6 h7 h8
  show ?thesis by simp
qed

section \<open>The update endpoint keeps the id and the timestamps\<close>

lemma row_update_frame:
  assumes "row_update E d = Some f"
  shows "prod_id (f r) = prod_id r" and "created_at (f r) = created_at r"
    and "updated_at (f r) = updated_at r"
  using assms by (auto simp: row_update_def split: option.splits)

lemma product_update_Inr:
  assumes "product_update E s w d = Inr (r', s')"
  shows "\<exists>i f r. w = Some i \<and> row_update E d = Some f \<and>
     find (\<lambda>x. prod_id x = i) (products s) = Some r \<and> r' = f r \<and>
     s' = s\<lparr>products := map (\<lambda>x. if prod_id x = i then f x else x) (products s)\<rparr>"
  using assms by (auto simp: product_update_def split: option.splits if_splits)

lemma find_Some_member: "find P xs = Some x \<Longrightarrow> x \<in> set xs \<and> P x"
  by (induction xs) (auto split: if_splits)

lemma put_product_ok:
  assumes "put_product E s rid b = (Inr resp, s')" and "code resp = 200"
  shows "\<exists>d r'. update_data_of b = Inr d \<and>
     product_update E s (parseInt E rid) d = Inr (r', s') \<and> payload resp = Row r'"
  using assms
  by (cases "update_data_of b")
     (auto simp: put_product_def update_failed_def split: sum.splits)

text \<open>
  C10. After a successful update (status 200) the row sent back is the stored row
  with the requested id, and its \<open>prod_id\<close>, \<open>created_at\<close> and \<open>updated_at\<close> are those
  the row had before; so are those of every other row, and the Category table is
  untouched.
\<close>

theorem update_keeps_id_and_timestamps:
  assumes "put_product E s rid b = (Inr resp, s')" and "code resp = 200"
  shows "\<exists>i r r'. parseInt E rid = Some i \<and>
     find (\<lambda>x. prod_id x = i) (products s) = Some r \<and>
     payload resp = Row r' \<and> r' \<in> set (products s') \<and>
     prod_id r' = prod_id r \<and> created_at r' = created_at r \<and> updated_at r' = updated_at r \<and>
     map (\<lambda>x. (prod_id x, created_at x, updated_at x)) (products s') =
     map (\<lambda>x. (prod_id x, created_at x, updated_at x)) (products s) \<and>
     categories s' = categories s"
proof -
  from put_product_ok[OF assms] obtain d r'
    where "product_update E s (parseInt E rid) d = Inr (r', s')" and p: "payload resp = Row r'"
    by blast
  from product_update_Inr[OF this(1)] obtain i f r
    where i: "parseInt E rid = Some i" and f: "row_update E d = Some f"
      and r: "find (\<lambda>x. prod_id x = i) (products s) = Some r" and r': "r' = f r"
      and s': "s' = s\<lparr>products := map (\<lambda>x. if prod_id x = i then f x else x) (products s)\<rparr>"
    by blast
  let ?g = "\<lambda>x. if prod_id x = i then f x else x"
  have ps: "products s' = map ?g (products s)" and cs: "categories s' = categories s"
    by (simp_all add: s')
  from find_Some_member[OF r] have mem: "r \<in> set (products s)" and id: "prod_id r = i"
    by simp_all
  from id have "?g r = f r" by simp
  moreover from mem have "?g r \<in> ?g ` set (products s)" by (rule imageI)
  ultimately have stored: "f r \<in> set (products s')" unfolding ps set_map by simp
  have "(prod_id (?g x), created_at (?g x), updated_at (?g x)) =
      (prod_id x, created_at x, updated_at x)" for x
    by (simp add: row_update_frame[OF f])
  then have frame: "map (\<lambda>x. (prod_id x, created_at x, updated_at x)) (products s') =
     map (\<lambda>x. (prod_id x, created_at x, updated_at x)) (products s)"
    unfolding ps map_map comp_def by simp
  have "parseInt E rid = Some i \<and>
     find (\<lambda>x. prod_id x = i) (products s) = Some r \<and>
     payload resp = Row (f r) \<and> f r \<in> set (products s') \<and>
     prod_id (f r) = prod_id r \<and> created_at (f r) = created_at r \<and>
     updated_at (f r) = updated_at r \<and>
     map (\<lambda>x. (prod_id x, created_at x, updated_at x)) (products s') =
     map (\<lambda>x. (prod_id x, created_at x, updated_at x)) (products s) \<and>
     categories s' = categories s"
    using i r p r' stored frame cs by (simp add: row_update_frame[OF f])
  then show ?thesis by (intro exI)
qed

lemmas update_defs =
  put_product_def update_data_of_def product_update_def row_update_def update_failed_def

lemma crimson_update:
  "put_product example_env scenario_store ''1''
     (JObj [(''title'', JStr ''Crimson Shirt''), (''price'', JNum 25)]) =
   (Inr \<lparr>code = 200, payload = Row (red_shirt_row\<lparr>title := ''Crimson Shirt'', price := 25\<rparr>)\<rparr>,
    scenario_store\<lparr>products := [red_shirt_row\<lparr>title := ''Crimson Shirt'', price := 25\<rparr>]\<rparr>)"
  by (simp add: update_defs model_defs example_defs)

theorem update_keeps_id_and_timestamps_witness:
  "put_product example_env scenario_store ''1''
     (JObj [(''title'', JStr ''Crimson Shirt''), (''price'', JNum 25)]) =
   (Inr \<lparr>code = 200, payload = Row (red_shirt_row\<lparr>title := ''Crimson Shirt'', price := 25\<rparr>)\<rparr>,
    scenario_store\<lparr>products := [red_shirt_row\<lparr>title := ''Crimson Shirt'', price := 25\<rparr>]\<rparr>) \<and>
   (\<exists>r r'. find (\<lambda>x. prod_id x = 1) (products scenario_store) = Some r \<and>
      Row (red_shirt_row\<lparr>title := ''Crimson Shirt'', price := 25\<rparr>) = Row r' \<and>
      prod_id r' = prod_id r \<and> created_at r' = created_at r \<and> updated_at r' = updated_at r)"
proof -
  have c: "code \<lparr>code = 200,
    payload = Row (red_shirt_row\<lparr>title := ''Crimson Shirt'', price := 25\<rparr>)\<rparr> = 200" by simp
  from update_keeps_id_and_timestamps [OF crimson_update c] obtain i r r'
    where "parseInt example_env ''1'' = Some i"
      "find (\<lambda>x. prod_id x = i) (products scenario_store) = Some r"
      "Row (red_shirt_row\<lparr>title := ''Crimson Shirt'', price := 25\<rparr>) = Row r'"
      "prod_id r' = prod_id r" "created_at r' = created_at r" "updated_at r' = updated_at r"
    by auto
  moreover from this(1) have "i = 1" by (simp add: example_env_def)
  ultimately show ?thesis using crimson_update by blast
qed

section \<open>Where the rows of a run come from\<close>

lemma product_step_appends:
  assumes "product_step E s cd p = Inr s'"
  shows "s' = s \<or> (\<exists>row. products s' = products s @ [row])"
  using assms by (auto simp: product_step_Inr product_create_Inr)

lemma product_loop_inserts:
  "product_loop E s cd ps = (r, s') \<Longrightarrow>
   \<exists>new. products s' = products s @ new \<and>
     (\<forall>row \<in> set new. \<exists>before_p p after_p s2 s3.
        ps = before_p @ p # after_p \<and> product_loop E s cd before_p = (None, s2) \<and>
        product_step E s2 cd p = Inr s3 \<and> products s3 = products s2 @ [row])"
proof (induction ps arbitrary: s)
  case Nil
  then show ?case by simp
next
  case (Cons q qs)
  show ?case
  proof (cases "product_step E s cd q")
    case (Inl e)
    with Cons.prems have "products s' = products s @ []" by simp
    then show ?thesis by (intro exI[of _ "[]"]) simp
  next
    case (Inr s1)
    with Cons.prems have rest: "product_loop E s1 cd qs = (r, s')" by simp
    from Cons.IH[OF rest] obtain new where new: "products s' = products s1 @ new"
      and prov: "\<forall>row \<in> set new. \<exists>before_p p after_p s2 s3.
        qs = before_p @ p # after_p \<and> product_loop E s1 cd before_p = (None, s2) \<and>
        product_step E s2 cd p = Inr s3 \<and> products s3 = products s2 @ [row]" by blast
    have later: "\<exists>before_p p after_p s2 s3.
        q # qs = before_p @ p # after_p \<and> product_loop E s cd before_p = (None, s2) \<and>
        product_step E s2 cd p = Inr s3 \<and> products s3 = products s2 @ [row]"
      if "row \<in> set new" for row
    proof -
      from prov that obtain before_p p after_p s2 s3 where
        "qs = before_p @ p # after_p" "product_loop E s1 cd before_p = (None, s2)"
        "product_step E s2 cd p = Inr s3" "products s3 = products s2 @ [row]" by blast
      with Inr have "q # qs = (q # before_p) @ p # after_p \<and>
        product_loop E s cd (q # before_p) = (None, s2) \<and>
        product_step E s2 cd p = Inr s3 \<and> products s3 = products s2 @ [row]" by simp
      then show ?thesis by blast
    qed
    from product_step_appends[OF Inr] show ?thesis
    proof
      assume "s1 = s"
      with new later show ?thesis by auto
    next
      assume "\<exists>row. products s1 = products s @ [row]"
      then obtain row0 where row0: "products s1 = products s @ [row0]" ..
      with Inr have "q # qs = [] @ q # qs \<and> product_loop E s cd [] = (None, s) \<and>
        product_step E s cd q = Inr s1 \<and> products s1 = products s @ [row0]" by simp
      then have first: "\<exists>before_p p after_p s2 s3.
        q # qs = before_p @ p # after_p \<and> product_loop E s cd before_p = (None, s2) \<and>
        product_step E s2 cd p = Inr s3 \<and> products s3 = products s2 @ [row0]" by blast
      from new row0 have "products s' = products s @ (row0 # new)" by simp
      moreover from first later have "\<forall>row \<in> set (row0 # new). \<exists>before_p p after_p s2 s3.
        q # qs = before_p @ p # after_p \<and> product_loop E s cd before_p = (None, s2) \<and>
        product_step E s2 cd p = Inr s3 \<and> products s3 = products s2 @ [row]" by simp
      ultimately show ?thesis by blast
    qed
  qed
qed

lemma category_step_inserts:
  assumes "category_step E s c = (r, s')"
  shows "\<exists>new. products s' = products s @ new \<and> (\<forall>row \<in> set new. inserted_in E s c row)"
  using assms
proof (cases rule: category_step_cases)
  case (upsert_failed e)
  then show ?thesis by (intro exI[of _ "[]"]) simp
next
  case (not_iterable cd s1 e)
  with upsert_category_facts(1)[OF not_iterable(1)] show ?thesis
    by (intro exI[of _ "[]"]) simp
next
  case (looped cd s1 ps)
  from product_loop_inserts[OF looped(3)] obtain new
    where new: "products s' = products s1 @ new"
      and prov: "\<forall>row \<in> set new. \<exists>before_p p after_p s2 s3.
        ps = before_p @ p # after_p \<and> product_loop E s1 cd before_p = (None, s2) \<and>
        product_step E s2 cd p = Inr s3 \<and> products s3 = products s2 @ [row]" by blast
  have "inserted_in E s c row" if "row \<in> set new" for row
  proof -
    from prov that obtain before_p p after_p s2 s3 where
      "ps = before_p @ p # after_p" "product_loop E s1 cd before_p = (None, s2)"
      "product_step E s2 cd p = Inr s3" "products s3 = products s2 @ [row]" by blast
    with looped(1,2) show ?thesis unfolding inserted_in_def by blast
  qed
  with new upsert_category_facts(1)[OF looped(1)] show ?thesis by auto
qed

lemma category_loop_inserts:
  "category_loop E s cs = (r, s') \<Longrightarrow>
   \<exists>new. products s' = products s @ new \<and>
     (\<forall>row \<in> set new. \<exists>before_c c after_c s0.
        cs = before_c @ c # after_c \<and> category_loop E s before_c = (None, s0) \<and>
        inserted_in E s0 c row)"
proof (induction cs arbitrary: s)
  case Nil
  then show ?case by simp
next
  case (Cons q qs)
  obtain r1 s1 where step: "category_step E s q = (r1, s1)" by (cases "category_step E s q")
  from category_step_inserts[OF step] obtain new0
    where new0: "products s1 = products s @ new0"
      and prov0: "\<forall>row \<in> set new0. inserted_in E s q row" by blast
  have first: "\<exists>before_c c after_c s0.
        q # qs = before_c @ c # after_c \<and> category_loop E s before_c = (None, s0) \<and>
        inserted_in E s0 c row" if "row \<in> set new0" for row
  proof -
    from prov0 that have "q # qs = [] @ q # qs \<and> category_loop E s [] = (None, s) \<and>
        inserted_in E s q row" by simp
    then show ?thesis by blast
  qed
  show ?case
  proof (cases r1)
    case (Some e)
    with step Cons.prems have "s' = s1" by simp
    with new0 first show ?thesis by blast
  next
    case None
    with step Cons.prems have rest: "category_loop E s1 qs = (r, s')" by simp
    from Cons.IH[OF rest] obtain new where new: "products s' = products s1 @ new"
      and prov: "\<forall>row \<in> set new. \<exists>before_c c after_c s0.
        qs = before_c @ c # after_c \<and> category_loop E s1 before_c = (None, s0) \<and>
        inserted_in E s0 c row" by blast
    have later: "\<exists>before_c c after_c s0.
        q # qs = before_c @ c # after_c \<and> category_loop E s before_c = (None, s0) \<and>
        inserted_in E s0 c row" if "row \<in> set new" for row
    proof -
      from prov that obtain before_c c after_c s0 where
        "qs = before_c @ c # after_c" "category_loop E s1 before_c = (None, s0)"
        "inserted_in E s0 c row" by blast
      with step None have "q # qs = (q # before_c) @ c # after_c \<and>
        category_loop E s (q # before_c) = (None, s0) \<and> inserted_in E s0 c row" by simp
      then show ?thesis by blast
    qed
    from new new0 have "products s' = products s @ (new0 @ new)" by simp
    moreover from first later have "\<forall>row \<in> set (new0 @ new). \<exists>before_c c after_c s0.
        q # qs = before_c @ c # after_c \<and> category_loop E s before_c = (None, s0) \<and>
        inserted_in E s0 c row" by auto
    ultimately show ?thesis by blast
  qed
qed


lemma fetch_data_store:
  "fetch_categories E rid = Inr cs \<Longrightarrow> snd (fetch_data E s rid) = snd (category_loop E s cs)"
  by (auto simp: fetch_data_def split: prod.splits option.splits)

lemma fetch_data_no_document:
  "fetch_categories E rid = Inl e \<Longrightarrow> snd (fetch_data E s rid) = s"
  by (simp add: fetch_data_def)

lemma fetch_data_inserts:
  "\<exists>new. products (snd (fetch_data E s rid)) = products s @ new \<and>
     (\<forall>row \<in> set new. \<exists>before_c c after_c s0.
        fetch_categories E rid = Inr (before_c @ c # after_c) \<and>
        category_loop E s before_c = (None, s0) \<and> inserted_in E s0 c row)"
proof (cases "fetch_categories E rid")
  case (Inl e)
  then show ?thesis by (intro exI[of _ "[]"]) (simp add: fetch_data_no_document)
next
  case (Inr cs)
  obtain r s' where run: "category_loop E s cs = (r, s')" by (cases "category_loop E s cs")
  from category_loop_inserts[OF run] Inr fetch_data_store[OF Inr, of s] run
  show ?thesis by auto
qed

lemma product_step_row:
  assumes "product_step E s cd p = Inr s'" and "products s' = products s @ [row]"
  shows "\<exists>d. product_data_of E cd p = Inr d \<and> row_of_data (next_id s) d = Some row"
proof -
  from assms obtain d row' where d: "product_data_of E cd p = Inr d"
    and c: "product_create s d = Inr (row', s')"
    unfolding product_step_Inr by auto
  from c have "row_of_data (next_id s) d = Some row'" "products s' = products s @ [row']"
    by (auto simp: product_create_Inr)
  with assms(2) d show ?thesis by auto
qed

lemma product_step_row_fields:
  assumes "product_step E s cd p = Inr s'" and "products s' = products s @ [row]"
  shows "get_prop p ''title'' = Inr (JStr (title row))"
    and "\<exists>v. get_prop p ''price'' = Inr v \<and> get_prop v ''price'' = Inr (JNum (price row))"
    and "\<exists>v. get_prop p ''preview'' = Inr v \<and> get_prop v ''content'' = Inr (JStr (preview row))"
    and "\<exists>v q. get_prop p ''stock'' = Inr v \<and> get_prop v ''stock'' = Inr (JNum q) \<and>
           stock row = trunc q"
    and "category_id row = cat_id cd"
proof -
  from product_step_row[OF assms] obtain d where d: "product_data_of E cd p = Inr d"
    and row: "row_of_data (next_id s) d = Some row" by blast
  note f = product_data_of_Inr[OF d] and g = row_of_data_Some[OF row]
  from f(1) g(2) show "get_prop p ''title'' = Inr (JStr (title row))" by simp
  from f(3) g(4)
  show "\<exists>v. get_prop p ''price'' = Inr v \<and> get_prop v ''price'' = Inr (JNum (price row))"
    by simp
  from f(4) g(5)
  show "\<exists>v. get_prop p ''preview'' = Inr v \<and> get_prop v ''content'' = Inr (JStr (preview row))"
    by simp
  from g(6) obtain q where "d_stock d = JNum q" "trunc q = stock row"
    unfolding as_Int_Some by blast
  with f(5)
  show "\<exists>v q. get_prop p ''stock'' = Inr v \<and> get_prop v ''stock'' = Inr (JNum q) \<and>
           stock row = trunc q" by auto
  from row_category_id[OF row f(2)] show "category_id row = cat_id cd" .
qed


lemma floor_three_halves: "\<lfloor>(3::rat) / 2\<rfloor> = 1"
  by (rule floor_unique) simp_all

section \<open>Nested fields\<close>







section \<open>The category of an inserted product\<close>

lemma category_upsert_stored:
  assumes "category_upsert s i n u = Inr (cd, s1)"
  shows "cd \<in> set (categories s1)"
proof (cases "has_category s (cat_id cd)")
  case True
  then obtain r where "r \<in> set (categories s)" "cat_id r = cat_id cd"
    by (auto simp: has_category_def)
  then have "r\<lparr>name := name cd, user_id := user_id cd\<rparr> \<in> set (categories s1)"
    unfolding category_upsert_Inr(6)[OF assms] using True by (simp add: image_iff) metis
  moreover have "r\<lparr>name := name cd, user_id := user_id cd\<rparr> = cd"
    using \<open>cat_id r = cat_id cd\<close> by simp
  ultimately show ?thesis by simp
next
  case False
  then show ?thesis unfolding category_upsert_Inr(6)[OF assms] by simp
qed

lemma get_prop_Inl: "get_prop v k = Inl e \<longleftrightarrow> (v = JUndefined \<or> v = JNull) \<and> e = TypeError"
  by (cases v) auto

lemma bind_TypeError:
  assumes "bind m f = Inl e"
    and "\<And>e'. m = Inl e' \<Longrightarrow> e' = TypeError"
    and "\<And>x e'. f x = Inl e' \<Longrightarrow> e' = TypeError"
  shows "e = TypeError"
  using assms by (cases m) auto

lemma product_data_of_Inl:
  assumes "product_data_of E cd p = Inl e"
  shows "e = TypeError"
  using assms unfolding product_data_of_def
  by (elim bind_TypeError) (simp_all add: get_prop_Inl)

lemma product_step_no_dangling:
  assumes "has_category s (cat_id cd)"
  shows "product_step E s cd p \<noteq> Inl ForeignKeyViolation"
proof
  assume "product_step E s cd p = Inl ForeignKeyViolation"
  then consider
      "get_prop p ''title'' = Inl ForeignKeyViolation"
    | t where "productExists E s t (cat_id cd) = Inl ForeignKeyViolation"
    | "product_data_of E cd p = Inl ForeignKeyViolation"
    | d where "product_data_of E cd p = Inr d" "product_create s d = Inl ForeignKeyViolation"
    unfolding product_step_Inl by blast
  then show False
  proof cases
    case 1
    then show ?thesis by (simp add: get_prop_Inl)
  next
    case 2
    then show ?thesis by (simp add: productExists_Inl)
  next
    case 3
    then show ?thesis by (auto dest: product_data_of_Inl)
  next
    case 4
    from product_create_fails[OF 4(2) assms product_data_of_Inr(2)[OF 4(1)]]
    show ?thesis by simp
  qed
qed


lemma product_loop_no_dangling:
  assumes "has_category s (cat_id cd)" and "product_loop E s cd ps = (r, s')"
  shows "r \<noteq> Some ForeignKeyViolation"
  using assms
proof (induction ps arbitrary: s)
  case Nil
  then show ?case by simp
next
  case (Cons p ps)
  show ?case
  proof (cases "product_step E s cd p")
    case (Inl e)
    with Cons.prems(2) product_step_no_dangling[OF Cons.prems(1), of E p] show ?thesis
      by auto
  next
    case (Inr s1)
    with Cons.prems(2) have rest: "product_loop E s1 cd ps = (r, s')" by simp
    from product_step_grows(1)[OF Inr] Cons.prems(1)
    have "has_category s1 (cat_id cd)" by (simp add: has_category_def)
    from Cons.IH[OF this rest] show ?thesis .
  qed
qed

lemma upsert_category_no_dangling: "upsert_category s c \<noteq> Inl ForeignKeyViolation"
proof
  assume a: "upsert_category s c = Inl ForeignKeyViolation"
  have "category_upsert s i n u \<noteq> Inl ForeignKeyViolation" for i n u
    by (auto simp: category_upsert_def Let_def split: option.splits)
  with a show False
    by (cases "get_prop c ''id''"; cases "get_prop c ''name''"; cases "get_prop c ''user_id''")
       (auto simp: upsert_category_def get_prop_Inl)
qed

lemma products_of_no_dangling: "products_of c \<noteq> Inl ForeignKeyViolation"
  by (cases "get_prop c ''products''")
     (auto simp: products_of_def get_prop_Inl elim: js_iterate.elims)

lemma category_step_no_dangling:
  assumes "category_step E s c = (r, s')"
  shows "r \<noteq> Some ForeignKeyViolation"
  using assms
proof (cases rule: category_step_cases)
  case (upsert_failed e)
  with upsert_category_no_dangling[of s c] show ?thesis by auto
next
  case (not_iterable cd s1 e)
  with products_of_no_dangling[of c] show ?thesis by auto
next
  case (looped cd s1 ps)
  from product_loop_no_dangling[OF upsert_category_facts(3)[OF looped(1)] looped(3)]
  show ?thesis .
qed

lemma category_loop_no_dangling:
  "category_loop E s cs = (r, s') \<Longrightarrow> r \<noteq> Some ForeignKeyViolation"
proof (induction cs arbitrary: s)
  case Nil
  then show ?case by simp
next
  case (Cons c cs)
  obtain r1 s1 where step: "category_step E s c = (r1, s1)" by (cases "category_step E s c")
  show ?case
  proof (cases r1)
    case None
    with step Cons.prems have "category_loop E s1 cs = (r, s')" by simp
    from Cons.IH[OF this] show ?thesis .
  next
    case (Some e)
    with step Cons.prems category_step_no_dangling[OF step] show ?thesis by simp
  qed
qed

lemma upsert_category_stored:
  assumes "upsert_category s c = Inr (cd, s1)"
  shows "cd \<in> set (categories s1)"
  using assms unfolding upsert_category_Inr by (auto dest: category_upsert_stored)

text \<open>
  C7. In every run, no product insert is refused for a missing Category row.
  Every Product row a run adds was appended by the loop body at a product \<open>p\<close> of a
  category block \<open>c\<close> of the document, after the run had come to \<open>c\<close> without an
  exception, the upsert of \<open>c\<close> had succeeded and the products of \<open>c\<close> before \<open>p\<close>
  had been handled; the Category row \<open>cd\<close> that the upsert stored is in the table
  when the row is inserted, and the row's \<open>category_id\<close> is the stored id of \<open>cd\<close>.
\<close>

theorem category_upserted_before_insert:
  assumes "fetch_categories E rid = Inr cs"
  shows "fst (category_loop E s cs) \<noteq> Some ForeignKeyViolation \<and>
    (\<exists>new. products (snd (fetch_data E s rid)) = products s @ new \<and>
       (\<forall>row \<in> set new. \<exists>before_c c after_c s0 cd s1 before_p p after_p s2 s3.
          cs = before_c @ c # after_c \<and> category_loop E s before_c = (None, s0) \<and>
          upsert_category s0 c = Inr (cd, s1) \<and>
          products_of c = Inr (before_p @ p # after_p) \<and>
          product_loop E s1 cd before_p = (None, s2) \<and>
          product_step E s2 cd p = Inr s3 \<and> products s3 = products s2 @ [row] \<and>
          cd \<in> set (categories s2) \<and> category_id row = cat_id cd))"
proof
  obtain r s' where run: "category_loop E s cs = (r, s')" by (cases "category_loop E s cs")
  from category_loop_no_dangling[OF run] run
  show "fst (category_loop E s cs) \<noteq> Some ForeignKeyViolation" by simp
  from fetch_data_inserts[of E s rid] obtain new
    where new: "products (snd (fetch_data E s rid)) = products s @ new"
      and prov: "\<forall>row \<in> set new. \<exists>before_c c after_c s0.
        fetch_categories E rid = Inr (before_c @ c # after_c) \<and>
        category_loop E s before_c = (None, s0) \<and> inserted_in E s0 c row" by blast
  have "\<exists>before_c c after_c s0 cd s1 before_p p after_p s2 s3.
          cs = before_c @ c # after_c \<and> category_loop E s before_c = (None, s0) \<and>
          upsert_category s0 c = Inr (cd, s1) \<and>
          products_of c = Inr (before_p @ p # after_p) \<and>
          product_loop E s1 cd before_p = (None, s2) \<and>
          product_step E s2 cd p = Inr s3 \<and> products s3 = products s2 @ [row] \<and>
          cd \<in> set (categories s2) \<and> category_id row = cat_id cd"
    if "row \<in> set new" for row
  proof -
    from prov that assms obtain before_c c after_c s0 cd s1 before_p p after_p s2 s3
      where 1: "cs = before_c @ c # after_c" "category_loop E s before_c = (None, s0)"
        and 2: "upsert_category s0 c = Inr (cd, s1)"
          "products_of c = Inr (before_p @ p # after_p)"
        and 3: "product_loop E s1 cd before_p = (None, s2)"
        and 4: "product_step E s2 cd p = Inr s3" "products s3 = products s2 @ [row]"
      unfolding inserted_in_def by auto
    from upsert_category_stored[OF 2(1)] product_loop_grows[OF 3]
    have "cd \<in> set (categories s2)" by simp
    with 1 2 3 4 product_step_row_fields(5)[OF 4] show ?thesis by blast
  qed
  with new
  show "\<exists>new. products (snd (fetch_data E s rid)) = products s @ new \<and>
       (\<forall>row \<in> set new. \<exists>before_c c after_c s0 cd s1 before_p p after_p s2 s3.
          cs = before_c @ c # after_c \<and> category_loop E s before_c = (None, s0) \<and>
          upsert_category s0 c = Inr (cd, s1) \<and>
          products_of c = Inr (before_p @ p # after_p) \<and>
          product_loop E s1 cd before_p = (None, s2) \<and>
          product_step E s2 cd p = Inr s3 \<and> products s3 = products s2 @ [row] \<and>
          cd \<in> set (categories s2) \<and> category_id row = cat_id cd)" by blast
qed


lemma fractional_id_document:
  "fetch_categories example_env ''8'' =
     Inr [block 1 ''Shirts'' [], block (3 / 2) ''Tops'' [red_shirt]]"
  by (simp add: model_defs example_defs)

lemma fractional_id_run:
  "fetch_data example_env empty_store ''8'' =
     (fetch_ok, \<lparr>categories = [\<lparr>cat_id = 1, name = ''Tops'', user_id = 9\<rparr>],
                 products = [red_shirt_row], next_id = 2\<rparr>)"
  by (simp add: model_defs example_defs floor_three_halves)

theorem category_upserted_before_insert_witness:
  "fetch_categories example_env ''8'' =
     Inr [block 1 ''Shirts'' [], block (3 / 2) ''Tops'' [red_shirt]] \<and>
   fst (category_loop example_env empty_store
          [block 1 ''Shirts'' [], block (3 / 2) ''Tops'' [red_shirt]]) \<noteq>
     Some ForeignKeyViolation \<and>
   products (snd (fetch_data example_env empty_store ''8'')) =
     products empty_store @ [red_shirt_row] \<and>
   (\<exists>before_c c after_c s0 cd s1 before_p p after_p s2 s3.
      [block 1 ''Shirts'' [], block (3 / 2) ''Tops'' [red_shirt]] = before_c @ c # after_c \<and>
      category_loop example_env empty_store before_c = (None, s0) \<and>
      upsert_category s0 c = Inr (cd, s1) \<and>
      products_of c = Inr (before_p @ p # after_p) \<and>
      product_loop example_env s1 cd before_p = (None, s2) \<and>
      product_step example_env s2 cd p = Inr s3 \<and>
      products s3 = products s2 @ [red_shirt_row] \<and>
      cd \<in> set (categories s2) \<and> category_id red_shirt_row = cat_id cd)"
proof -
  let ?cs = "[block 1 ''Shirts'' [], block (3 / 2) ''Tops'' [red_shirt]]"
  have run: "products (snd (fetch_data example_env empty_store ''8'')) =
      products empty_store @ [red_shirt_row]"
    unfolding fractional_id_run by (simp add: empty_store_def)
  from category_upserted_before_insert [OF fractional_id_document, of empty_store]
  obtain new where fk: "fst (category_loop example_env empty_store ?cs) \<noteq>
        Some ForeignKeyViolation"
    and new: "products (snd (fetch_data example_env empty_store ''8'')) =
        products empty_store @ new"
    and all: "\<forall>row \<in> set new. \<exists>before_c c after_c s0 cd s1 before_p p after_p s2 s3.
      ?cs = before_c @ c # after_c \<and>
      category_loop example_env empty_store before_c = (None, s0) \<and>
      upsert_category s0 c = Inr (cd, s1) \<and>
      products_of c = Inr (before_p @ p # after_p) \<and>
      product_loop example_env s1 cd before_p = (None, s2) \<and>
      product_step example_env s2 cd p = Inr s3 \<and>
      products s3 = products s2 @ [row] \<and>
      cd \<in> set (categories s2) \<and> category_id row = cat_id cd" by blast
  from new run have "new = [red_shirt_row]" by simp
  then have "red_shirt_row \<in> set new" by simp
  with all have "\<exists>before_c c after_c s0 cd s1 before_p p after_p s2 s3.
      ?cs = before_c @ c # after_c \<and>
      category_loop example_env empty_store before_c = (None, s0) \<and>
      upsert_category s0 c = Inr (cd, s1) \<and>
      products_of c = Inr (before_p @ p # after_p) \<and>
      product_loop example_env s1 cd before_p = (None, s2) \<and>
      product_step example_env s2 cd p = Inr s3 \<and>
      products s3 = products s2 @ [red_shirt_row] \<and>
      cd \<in> set (categories s2) \<and> category_id red_shirt_row = cat_id cd" ..
  with fk run fractional_id_document show ?thesis by simp
qed


section \<open>The category upsert\<close>





















end
